theory Spec2Isabelle
  imports Main "HOL-Library.Word" "HOL-Library.Sublist"
begin

unbundle bit_operations_syntax

section \<open>Machine types\<close>

text \<open>
  The model follows the LP64 data model of the program's Linux targets:
  \<open>unsigned long\<close>, \<open>size_t\<close> and \<open>time_t\<close> are 64 bits wide, \<open>unsigned\<close> and
  \<open>uint32_t\<close> are 32 bits wide. A byte of a file or of a C string is a \<open>char\<close>;
  a C string is the list of its bytes before the terminating NUL.
\<close>

type_synonym ulong = "64 word"
type_synonym uint32 = "32 word"
type_synonym bytes = "char list"

section \<open>CRC calculation (thumbnailcache.c, lines 38 to 70)\<close>

text \<open>One round of the inner loop of \<open>make_crc_table\<close>.\<close>

definition crc_round :: "ulong \<Rightarrow> ulong" where
  "crc_round c = (if c AND 1 \<noteq> 0 then 0xedb88320 XOR drop_bit 1 c else drop_bit 1 c)"

text \<open>The value stored into \<open>crc_table[n]\<close>: eight rounds starting from \<open>n\<close>.\<close>

definition crc_table_entry :: "nat \<Rightarrow> ulong" where
  "crc_table_entry n = (crc_round ^^ 8) (of_nat n)"

text \<open>The array \<open>crc_table\<close> once \<open>make_crc_table\<close> has run.\<close>

definition make_crc_table :: "ulong list" where
  "make_crc_table = map crc_table_entry [0..<256]"

text \<open>The body of the loop of \<open>crc\<close>, over a given table.\<close>

definition crc_update :: "ulong list \<Rightarrow> char \<Rightarrow> ulong \<Rightarrow> ulong" where
  "crc_update tbl b c = (tbl ! unat ((c XOR of_char b) AND 0xff)) XOR drop_bit 8 c"

text \<open>
  The loop of \<open>crc\<close> over the bytes it visits. The source's \<open>len\<close> is an \<open>int\<close>:
  the loop \<open>for (n = 0; n < len; n++)\<close> visits the first \<open>len\<close> bytes of \<open>buf\<close>, and
  none when \<open>len\<close> is negative.
\<close>

definition crc_with :: "ulong list \<Rightarrow> ulong \<Rightarrow> bytes \<Rightarrow> ulong" where
  "crc_with tbl crc0 visited =
     fold (crc_update tbl) visited (crc0 XOR 0xffffffff) XOR 0xffffffff"

text \<open>
  The two static variables of the CRC code, and \<open>crc\<close> as the source has it: the
  table is filled on the first call.
\<close>

record crc_globals =
  crc_table :: "ulong list"
  crc_table_computed :: bool

definition crc_globals_initial :: crc_globals where
  "crc_globals_initial = \<lparr>crc_table = replicate 256 0, crc_table_computed = False\<rparr>"

definition crc_globals_filled :: crc_globals where
  "crc_globals_filled = \<lparr>crc_table = make_crc_table, crc_table_computed = True\<rparr>"

definition crc_static ::
  "crc_globals \<Rightarrow> ulong \<Rightarrow> bytes \<Rightarrow> int \<Rightarrow> ulong \<times> crc_globals" where
  "crc_static g crc0 buf len =
     (let g' = (if \<not> crc_table_computed g
                then g\<lparr>crc_table := make_crc_table, crc_table_computed := True\<rparr>
                else g)
      in (crc_with (crc_table g') crc0 (take (nat len) buf), g'))"

text \<open>
  In both states the program can be in (\<open>crc_globals_initial\<close> before the first
  call, \<open>crc_globals_filled\<close> after it), \<open>crc_static\<close> computes with the filled table;
  \<open>crc\<close> is that function of its arguments alone, and the rest of the model calls it.
\<close>

definition crc :: "ulong \<Rightarrow> bytes \<Rightarrow> int \<Rightarrow> ulong" where
  "crc crc0 buf len = crc_with make_crc_table crc0 (take (nat len) buf)"

text \<open>
  A reference CRC-32 (ISO 3309, ITU-T V.42, as in PNG): bit by bit over a 32-bit
  register, reflected polynomial \<open>0xEDB88320\<close>, initial value and final XOR
  \<open>0xFFFFFFFF\<close>. It follows the standard, not the source.
\<close>

definition crc32_ref_bit :: "uint32 \<Rightarrow> uint32" where
  "crc32_ref_bit r = (if bit r 0 then drop_bit 1 r XOR 0xEDB88320 else drop_bit 1 r)"

definition crc32_ref_byte :: "char \<Rightarrow> uint32 \<Rightarrow> uint32" where
  "crc32_ref_byte b r = (crc32_ref_bit ^^ 8) (r XOR of_char b)"

definition crc32_ref :: "bytes \<Rightarrow> uint32" where
  "crc32_ref buf = fold crc32_ref_byte buf 0xFFFFFFFF XOR 0xFFFFFFFF"


section \<open>Bytes, byte order and C strings\<close>

abbreviation NUL :: char where
  "NUL \<equiv> CHR 0x00"

text \<open>
  \<open>*(uint32_t * )p = htonl(v)\<close>: the four bytes stored at \<open>p\<close>, most significant first.
\<close>

definition htonl_bytes :: "uint32 \<Rightarrow> bytes" where
  "htonl_bytes v =
     [char_of (unat (drop_bit 24 v)), char_of (unat (drop_bit 16 v)),
      char_of (unat (drop_bit 8 v)), char_of (unat v)]"

text \<open>
  \<open>ntohl( *(uint32_t * )p)\<close>: the value of the four bytes at \<open>p\<close>, most significant
  first. Every caller has read at least four bytes into the buffer.
\<close>

fun ntohl_bytes :: "bytes \<Rightarrow> uint32" where
  "ntohl_bytes (a # b # c # d # _) =
     push_bit 24 (of_char a) OR push_bit 16 (of_char b) OR push_bit 8 (of_char c) OR of_char d"
| "ntohl_bytes _ = 0"

text \<open>
  \<open>strcmp(buf, lit) == 0\<close>, where \<open>buf\<close> is a buffer holding exactly the given bytes
  (it need not contain a NUL) and \<open>lit\<close> is a C string, given without its terminator.
  \<open>strcmp\<close> walks both until they differ or both are at a NUL. Reading \<open>buf\<close> past
  its last byte is undefined behaviour in C: the model returns \<open>None\<close> there.
\<close>

fun c_strcmp_eq :: "bytes \<Rightarrow> string \<Rightarrow> bool option" where
  "c_strcmp_eq [] lit = None"
| "c_strcmp_eq (a # buf) [] = Some (a = NUL)"
| "c_strcmp_eq (a # buf) (b # lit) =
     (if a \<noteq> b then Some False
      else if a = NUL then Some True
      else c_strcmp_eq buf lit)"

text \<open>
  \<open>strncmp(buf, str, n) == 0\<close> with the same conventions: at most \<open>n\<close> bytes are
  compared, and the comparison stops early where the two differ or at a NUL.
\<close>

fun c_strncmp_eq :: "bytes \<Rightarrow> string \<Rightarrow> nat \<Rightarrow> bool option" where
  "c_strncmp_eq buf str 0 = Some True"
| "c_strncmp_eq [] str (Suc n) = None"
| "c_strncmp_eq (a # buf) [] (Suc n) = Some (a = NUL)"
| "c_strncmp_eq (a # buf) (b # str) (Suc n) =
     (if a \<noteq> b then Some False
      else if a = NUL then Some True
      else c_strncmp_eq buf str n)"

text \<open>\<open>g_strdup_printf("%lu", v)\<close>: the decimal digits of an unsigned long.\<close>

fun decimal :: "nat \<Rightarrow> string" where
  "decimal n = (if n < 10 then [char_of (48 + n)]
                else decimal (n div 10) @ [char_of (48 + n mod 10)])"

definition printf_lu :: "ulong \<Rightarrow> string" where
  "printf_lu v = decimal (unat v)"

section \<open>Reading a thumbnail's attributes (\<open>check_png_attributes\<close>)\<close>

definition expected_header :: bytes where
  "expected_header =
     [CHR 0x89, CHR 0x50, CHR 0x4E, CHR 0x47, CHR 0x0D, CHR 0x0A, CHR 0x1A, CHR 0x0A]"

text \<open>
  Lines 178 to 185: the two match flags after a tEXt chunk whose checksum agrees. A
  flag is assigned, not or-ed: a chunk with the key sets it to the outcome of
  its own comparison. \<open>sizeof("Thumb::URI")\<close> is 11 and \<open>sizeof("Thumb::MTime")\<close> is 13.
\<close>

definition update_matches ::
  "string \<Rightarrow> ulong \<Rightarrow> bool \<Rightarrow> bool \<Rightarrow> bytes \<Rightarrow> (bool \<times> bool) option" where
  "update_matches file_uri file_mtime file_uri_match file_mtime_match data =
     (case c_strcmp_eq data ''Thumb::URI'' of
        None \<Rightarrow> None
      | Some True \<Rightarrow>
          (case c_strncmp_eq (drop 11 data) file_uri (length file_uri) of
             None \<Rightarrow> None
           | Some m \<Rightarrow> Some (m, file_mtime_match))
      | Some False \<Rightarrow>
          (case c_strcmp_eq data ''Thumb::MTime'' of
             None \<Rightarrow> None
           | Some True \<Rightarrow>
               (let file_mtime_str = printf_lu file_mtime in
                case c_strncmp_eq (drop 13 data) file_mtime_str (length file_mtime_str) of
                  None \<Rightarrow> None
                | Some m \<Rightarrow> Some (file_uri_match, m))
           | Some False \<Rightarrow> Some (file_uri_match, file_mtime_match)))"

text \<open>
  \<open>read(fd, buf, count)\<close> on a regular file: the number of bytes it transfers. It
  returns the bytes that are left when fewer than asked for remain, and Linux
  transfers at most \<open>MAX_RW_COUNT\<close> (\<open>INT_MAX\<close> rounded down to a page of 4096 bytes) in
  one call.
\<close>

definition MAX_RW_COUNT :: nat where
  "MAX_RW_COUNT = 0x7ffff000"

definition read_count :: "nat \<Rightarrow> nat \<Rightarrow> nat" where
  "read_count available count = min count (min available MAX_RW_COUNT)"

text \<open>
  The chunk loop (lines 153 to 197) over \<open>rest\<close>, the bytes of the file from the
  current offset on. Every \<open>read\<close> is compared with the count asked for, and the
  function returns FALSE when they differ. \<open>lseek\<close> may move past the end, after which
  \<open>read\<close> returns nothing. \<open>header_length\<close> is a 32-bit \<open>unsigned\<close>, so
  \<open>header_length + 4\<close> wraps around, and \<open>crc\<close> receives it as an \<open>int\<close>. The result is
  \<open>Some\<close> of the value returned, or \<open>None\<close> where a string comparison leaves the buffer.
\<close>

function scan_chunks :: "string \<Rightarrow> ulong \<Rightarrow> bool \<Rightarrow> bool \<Rightarrow> bytes \<Rightarrow> bool option" where
  "scan_chunks file_uri file_mtime file_uri_match file_mtime_match rest =
     (if read_count (length rest) 8 \<noteq> 8 then Some False
      else
        (case c_strncmp_eq (take 4 (drop 4 rest)) ''tEXt'' 4 of
           None \<Rightarrow> None
         | Some False \<Rightarrow>
             scan_chunks file_uri file_mtime file_uri_match file_mtime_match
               (drop (unat (ntohl_bytes (take 4 rest) + 4)) (drop 8 rest))
         | Some True \<Rightarrow>
             (if read_count (length (drop 8 rest)) (unat (ntohl_bytes (take 4 rest)))
                   \<noteq> unat (ntohl_bytes (take 4 rest))
              then Some False
              else if read_count
                        (length (drop (unat (ntohl_bytes (take 4 rest))) (drop 8 rest))) 4 \<noteq> 4
              then Some False
              else if ntohl_bytes (take 4 (drop (unat (ntohl_bytes (take 4 rest))) (drop 8 rest)))
                      = ucast (crc (crc 0 ''tEXt'' 4)
                                 (take (unat (ntohl_bytes (take 4 rest))) (drop 8 rest))
                                 (sint (ntohl_bytes (take 4 rest))))
              then
                (case update_matches file_uri file_mtime file_uri_match file_mtime_match
                        (take (unat (ntohl_bytes (take 4 rest))) (drop 8 rest)) of
                   None \<Rightarrow> None
                 | Some (uri_match', mtime_match') \<Rightarrow>
                     (if uri_match' \<and> mtime_match' then Some True
                      else scan_chunks file_uri file_mtime uri_match' mtime_match'
                             (drop 4 (drop (unat (ntohl_bytes (take 4 rest))) (drop 8 rest)))))
              else scan_chunks file_uri file_mtime file_uri_match file_mtime_match
                     (drop 4 (drop (unat (ntohl_bytes (take 4 rest))) (drop 8 rest))))))"
  by pat_completeness auto
termination
  by (relation "measure (\<lambda>(u, m, a, b, rest). length rest)")
     (auto simp add: read_count_def MAX_RW_COUNT_def)

text \<open>
  The part of \<open>check_png_attributes\<close> that follows a successful \<open>g_open\<close>, on the
  content of the file: the 8-byte file header, then the chunk loop.
\<close>

definition check_png_content :: "bytes \<Rightarrow> string \<Rightarrow> ulong \<Rightarrow> bool option" where
  "check_png_content content file_uri file_mtime =
     (if read_count (length content) 8 \<noteq> 8 then Some False
      else if take 8 content \<noteq> expected_header then Some False
      else scan_chunks file_uri file_mtime False False (drop 8 content))"


section \<open>The program's surroundings\<close>

datatype cairo_status_t =
  CAIRO_STATUS_SUCCESS | CAIRO_STATUS_NO_MEMORY | CAIRO_STATUS_WRITE_ERROR

text \<open>
  A cairo image surface, as far as this file uses one: its dimensions, and what
  \<open>cairo_surface_write_to_png_stream\<close> does with it. The encoder belongs to cairo; the
  model takes from the surface the data of the successive calls the encoder makes to
  its write function, and the status the encoder returns when every call succeeded.
\<close>

record surface =
  surface_width :: nat
  surface_height :: nat
  png_calls :: "bytes list"
  png_status :: cairo_status_t

text \<open>The fields of pqiv's \<open>file_t\<close> that this file reads.\<close>

record file_t =
  file_flags :: uint32
  display_name :: string
  file_name :: string
  thumbnail :: surface

text \<open>
  Everything outside thumbnailcache.c that its functions consult: constants and
  functions of pqiv, glib and cairo, and the state of the file system.
  \<^item> \<open>FILE_FLAGS_MEMORY_IMAGE\<close> is the constant of pqiv.h.
  \<^item> \<open>g_file_get_path e name\<close> is \<open>g_file_get_path(gfile_for_commandline_arg(name))\<close>,
    \<open>None\<close> for NULL; \<open>g_getenv\<close> likewise. \<open>g_compute_checksum_md5\<close> is
    \<open>g_compute_checksum_for_string(G_CHECKSUM_MD5, s, -1)\<close>.
  \<^item> \<open>stat_mtime e path\<close> is the \<open>st_mtime\<close> that \<open>stat\<close> stores, \<open>None\<close> when \<open>stat\<close>
    fails. \<open>uninitialised_mtime\<close> is what \<open>file_stat.st_mtime\<close> holds when \<open>stat\<close> has
    failed and written nothing to \<open>file_stat\<close>.
  \<^item> \<open>freed_basename\<close> is the string read through the pointer \<open>file_basename\<close> after
    line 297 has freed it.
  \<^item> \<open>files\<close> maps the path of a regular file that \<open>g_open\<close> can open for reading to
    its content; \<open>file_test_exists\<close> and \<open>file_test_is_dir\<close> are \<open>g_file_test\<close> with
    \<open>G_FILE_TEST_EXISTS\<close> and \<open>G_FILE_TEST_IS_DIR\<close>.
  \<^item> \<open>open_creat_wronly e path\<close> is the descriptor that
    \<open>g_open(path, O_CREAT | O_WRONLY, 0600)\<close> returns, negative when it fails;
    \<open>write_room\<close> is the number of bytes the device takes before \<open>write\<close> fails.
  \<^item> \<open>cairo_image_surface_create_from_png e path\<close> is the decoded surface, \<open>None\<close> when
    its status is not \<open>CAIRO_STATUS_SUCCESS\<close>; \<open>scaled_surface\<close> is the outcome of lines
    222 to 243.
\<close>

record env =
  FILE_FLAGS_MEMORY_IMAGE :: uint32
  g_file_get_path :: "string \<Rightarrow> string option"
  g_getenv :: "string \<Rightarrow> string option"
  g_build_filename :: "string list \<Rightarrow> string"
  g_path_get_dirname :: "string \<Rightarrow> string"
  g_path_get_basename :: "string \<Rightarrow> string"
  g_compute_checksum_md5 :: "string \<Rightarrow> string"
  stat_mtime :: "string \<Rightarrow> ulong option"
  uninitialised_mtime :: ulong
  freed_basename :: string
  files :: "string \<Rightarrow> bytes option"
  file_test_exists :: "string \<Rightarrow> bool"
  file_test_is_dir :: "string \<Rightarrow> bool"
  open_creat_wronly :: "string \<Rightarrow> int"
  write_room :: nat
  cairo_image_surface_create_from_png :: "string \<Rightarrow> surface option"
  scaled_surface :: "surface \<Rightarrow> nat \<Rightarrow> nat \<Rightarrow> surface option"

definition thumbnail_levels :: "string list" where
  "thumbnail_levels = [''large'', ''normal'']"

section \<open>Auxiliary functions (lines 72 to 122)\<close>

text \<open>
  \<open>g_strrstr(name, "/")\<close> followed by the step past the separator, or the whole name
  when it has no separator: the part after the last \<open>/\<close>.
\<close>

definition after_last_separator :: "string \<Rightarrow> string" where
  "after_last_separator name = rev (takeWhile (\<lambda>c. c \<noteq> CHR ''/'') (rev name))"

definition get_local_filename :: "env \<Rightarrow> file_t \<Rightarrow> string option" where
  "get_local_filename e file =
     (if file_flags file AND FILE_FLAGS_MEMORY_IMAGE e \<noteq> 0 then None
      else if after_last_separator (file_name file) \<noteq> after_last_separator (display_name file)
      then None
      else g_file_get_path e (file_name file))"

text \<open>
  The path \<open>get_thumbnail_cache_directory\<close> returns. \<open>g_build_filename\<close> takes its
  arguments up to the first NULL, so a missing \<open>HOME\<close> leaves it none. The function
  caches the path in a static variable and creates the directory when it is missing;
  the model keeps neither effect, only the path.
\<close>

definition get_thumbnail_cache_directory :: "env \<Rightarrow> string" where
  "get_thumbnail_cache_directory e =
     (case g_getenv e ''XDG_CACHE_HOME'' of
        None \<Rightarrow>
          (case g_getenv e ''HOME'' of
             None \<Rightarrow> g_build_filename e []
           | Some home \<Rightarrow> g_build_filename e [home, ''.cache'', ''thumbnails''])
      | Some cache_dir \<Rightarrow> g_build_filename e [cache_dir, ''thumbnails''])"

text \<open>\<open>check_png_attributes\<close>: \<open>g_open\<close>, then the checks on the content.\<close>

definition check_png_attributes :: "env \<Rightarrow> string \<Rightarrow> string \<Rightarrow> ulong \<Rightarrow> bool option" where
  "check_png_attributes e png_file_name file_uri file_mtime =
     (case files e png_file_name of
        None \<Rightarrow> Some False
      | Some content \<Rightarrow> check_png_content content file_uri file_mtime)"

section \<open>Loading (lines 203 to 321)\<close>

text \<open>
  \<open>load_thumbnail\<close>: \<open>Some None\<close> is the NULL it returns, \<open>Some (Some t)\<close> a surface. The
  scaling of lines 222 to 243 is cairo's and is computed in floating point; the model
  takes its outcome from \<open>scaled_surface\<close>, \<open>None\<close> when the status of the new surface
  is not \<open>CAIRO_STATUS_SUCCESS\<close>.
\<close>

definition load_thumbnail ::
  "env \<Rightarrow> string \<Rightarrow> string \<Rightarrow> ulong \<Rightarrow> nat \<Rightarrow> nat \<Rightarrow> surface option option" where
  "load_thumbnail e png_file_name file_uri file_mtime width height =
     (case check_png_attributes e png_file_name file_uri file_mtime of
        None \<Rightarrow> None
      | Some False \<Rightarrow> Some None
      | Some True \<Rightarrow>
          (case cairo_image_surface_create_from_png e png_file_name of
             None \<Rightarrow> Some None
           | Some decoded \<Rightarrow>
               if surface_width decoded = width \<or> surface_height decoded = height
               then Some (Some decoded)
               else Some (scaled_surface e decoded width height)))"

text \<open>\<open>g_strdup_printf("%s%s%s%s%s.png", dir, "/", thumbnail_levels[j], "/", md5)\<close>.\<close>

definition thumbnail_candidate :: "string \<Rightarrow> nat \<Rightarrow> string \<Rightarrow> string" where
  "thumbnail_candidate dir j md5 = dir @ ''/'' @ thumbnail_levels ! j @ ''/'' @ md5 @ ''.png''"

text \<open>
  The loops of lines 270 to 285 and 299 to 314, over the values \<open>j\<close> still to come.
  The result pairs the candidates handed to \<open>g_file_test\<close>, in order, with the
  outcome: \<open>Some (Some t)\<close> when the function returns TRUE with \<open>file->thumbnail = t\<close>
  from inside the loop, \<open>Some None\<close> when the loop ends.
\<close>

fun try_levels ::
  "env \<Rightarrow> string \<Rightarrow> string \<Rightarrow> string \<Rightarrow> ulong \<Rightarrow> nat \<Rightarrow> nat \<Rightarrow> nat list
     \<Rightarrow> string list \<times> surface option option" where
  "try_levels e dir md5 uri file_mtime width height [] = ([], Some None)"
| "try_levels e dir md5 uri file_mtime width height (j # js) =
     (if file_test_exists e (thumbnail_candidate dir j md5) then
        (case load_thumbnail e (thumbnail_candidate dir j md5) uri file_mtime width height of
           None \<Rightarrow> ([thumbnail_candidate dir j md5], None)
         | Some (Some t) \<Rightarrow> ([thumbnail_candidate dir j md5], Some (Some t))
         | Some None \<Rightarrow>
             (case try_levels e dir md5 uri file_mtime width height js of
                (tried, r) \<Rightarrow> (thumbnail_candidate dir j md5 # tried, r)))
      else
        (case try_levels e dir md5 uri file_mtime width height js of
           (tried, r) \<Rightarrow> (thumbnail_candidate dir j md5 # tried, r)))"

text \<open>The values of \<open>j\<close> in \<open>for(int j=(width > 128 || height > 128) ? 0 : 1; j<2; j++)\<close>.\<close>

definition levels_to_try :: "nat \<Rightarrow> nat \<Rightarrow> nat list" where
  "levels_to_try width height = [(if width > 128 \<or> height > 128 then 0 else 1)..<2]"

text \<open>
  \<open>load_thumbnail_from_cache\<close>. The return value of \<open>stat\<close> is not looked at: after a
  failed \<open>stat\<close>, \<open>file_mtime\<close> is whatever \<open>file_stat.st_mtime\<close> held. In the second
  loop the URI handed to \<open>load_thumbnail\<close> is \<open>file_basename\<close>, which has been freed.
\<close>

definition load_thumbnail_from_cache ::
  "env \<Rightarrow> file_t \<Rightarrow> nat \<Rightarrow> nat \<Rightarrow> string list \<times> surface option option" where
  "load_thumbnail_from_cache e file width height =
     (if width > 256 \<or> height > 256 then ([], Some None)
      else
        (case get_local_filename e file of
           None \<Rightarrow> ([], Some None)
         | Some local_filename \<Rightarrow>
             (let file_mtime = (case stat_mtime e local_filename of
                                  Some t \<Rightarrow> t
                                | None \<Rightarrow> uninitialised_mtime e);
                  file_uri = ''file://'' @ local_filename;
                  md5_filename = g_compute_checksum_md5 e file_uri
              in
                (case try_levels e (get_thumbnail_cache_directory e) md5_filename file_uri
                        file_mtime width height (levels_to_try width height) of
                   (tried, None) \<Rightarrow> (tried, None)
                 | (tried, Some (Some t)) \<Rightarrow> (tried, Some (Some t))
                 | (tried, Some None) \<Rightarrow>
                     (let shared_thumbnail_directory =
                            g_build_filename e [g_path_get_dirname e local_filename,
                                                ''.sh_thumbnails'']
                      in
                        if file_test_is_dir e shared_thumbnail_directory then
                          (case try_levels e shared_thumbnail_directory
                                  (g_compute_checksum_md5 e (g_path_get_basename e local_filename))
                                  (freed_basename e) file_mtime width height
                                  (levels_to_try width height) of
                             (tried', r) \<Rightarrow> (tried @ tried', r))
                        else (tried, Some None))))))"


section \<open>Storing (lines 323 to 435)\<close>

text \<open>
  The file behind the descriptor the writer holds: the bytes written through it so
  far, and how many more bytes the device takes. \<open>write\<close> returns the number of bytes
  it has written, fewer than asked for when the room ends, and \<open>-1\<close> when there is
  no room at all.
\<close>

record fd_state =
  fd_written :: bytes
  fd_room :: nat

definition write_fd :: "fd_state \<Rightarrow> bytes \<Rightarrow> nat \<Rightarrow> int \<times> fd_state" where
  "write_fd f buf count =
     (if count = 0 then (0, f)
      else if fd_room f = 0 then (- 1, f)
      else (int (min count (fd_room f)),
            f\<lparr>fd_written := fd_written f @ take (min count (fd_room f)) buf,
              fd_room := fd_room f - min count (fd_room f)\<rparr>))"

record png_writer_info =
  output_file_fd :: fd_state
  bytes_written :: nat
  Thumb_URI :: string
  Thumb_MTime :: string

text \<open>Storing bytes into a buffer at an offset (\<open>strcpy\<close>, or an assignment through a pointer).\<close>

definition store_at :: "bytes \<Rightarrow> nat \<Rightarrow> bytes \<Rightarrow> bytes" where
  "store_at buf off bs = take off buf @ bs @ drop (off + length bs) buf"

text \<open>
  Lines 348 to 354 and 360 to 366: the buffer \<open>output\<close> when it is written. \<open>g_malloc\<close>
  does not initialise it; the model starts from NULs, and every byte is stored to
  before the buffer is used. \<open>strcpy\<close> stores the terminating NUL as well.
\<close>

definition uri_output :: "string \<Rightarrow> bytes" where
  "uri_output uri =
     (let uri_length = length uri;
          output_length = 4 + 4 + 11 + uri_length + 4;
          output0 = replicate output_length NUL;
          output1 = store_at output0 0 (htonl_bytes (of_nat (11 + uri_length)));
          output2 = store_at output1 4 (''tEXtThumb::URI'' @ [NUL]);
          output3 = store_at output2 19 (uri @ [NUL])
      in store_at output3 (19 + uri_length)
           (htonl_bytes (ucast (crc 0 (drop 4 output3) (int (19 + uri_length) - 4)))))"

definition mtime_output :: "string \<Rightarrow> bytes" where
  "mtime_output mtime =
     (let mtime_length = length mtime;
          output_length = 4 + 4 + 13 + mtime_length + 4;
          output0 = replicate output_length NUL;
          output1 = store_at output0 0 (htonl_bytes (of_nat (13 + mtime_length)));
          output2 = store_at output1 4 (''tEXtThumb::MTime'' @ [NUL]);
          output3 = store_at output2 21 (mtime @ [NUL])
      in store_at output3 (21 + mtime_length)
           (htonl_bytes (ucast (crc 0 (drop 4 output3) (int (21 + mtime_length) - 4)))))"

definition inject_pos :: nat where
  "inject_pos = 8 + (4 + 4 + 4 + 13)"

text \<open>The last part of \<open>png_writer\<close>, lines 373 to 380.\<close>

definition png_writer_rest :: "png_writer_info \<Rightarrow> bytes \<Rightarrow> cairo_status_t \<times> png_writer_info" where
  "png_writer_rest info data =
     (if length data > 0 then
        (case write_fd (output_file_fd info) data (length data) of
           (n, f) \<Rightarrow>
             if n \<noteq> int (length data)
             then (CAIRO_STATUS_WRITE_ERROR, info\<lparr>output_file_fd := f\<rparr>)
             else (CAIRO_STATUS_SUCCESS,
                   info\<lparr>output_file_fd := f, bytes_written := bytes_written info + length data\<rparr>))
      else (CAIRO_STATUS_SUCCESS, info))"

text \<open>
  \<open>png_writer\<close>; \<open>length data\<close> is the source's \<open>length\<close>. \<open>bytes_written\<close> is a
  \<open>size_t\<close>, which no stream of fewer than \<open>2 ^ 64\<close> bytes makes wrap around.
\<close>

definition png_writer :: "png_writer_info \<Rightarrow> bytes \<Rightarrow> cairo_status_t \<times> png_writer_info" where
  "png_writer info data =
     (if bytes_written info < inject_pos \<and> bytes_written info + length data \<ge> inject_pos then
        (case write_fd (output_file_fd info) data (inject_pos - bytes_written info) of
           (n1, f1) \<Rightarrow>
             if n1 \<noteq> int inject_pos - int (bytes_written info)
             then (CAIRO_STATUS_WRITE_ERROR, info\<lparr>output_file_fd := f1\<rparr>)
             else
               (case write_fd f1 (uri_output (Thumb_URI info))
                       (length (uri_output (Thumb_URI info))) of
                  (n2, f2) \<Rightarrow>
                    if n2 \<noteq> int (length (uri_output (Thumb_URI info)))
                    then (CAIRO_STATUS_WRITE_ERROR,
                          info\<lparr>output_file_fd := f2, bytes_written := inject_pos\<rparr>)
                    else
                      (case write_fd f2 (mtime_output (Thumb_MTime info))
                              (length (mtime_output (Thumb_MTime info))) of
                         (n3, f3) \<Rightarrow>
                           if n3 \<noteq> int (length (mtime_output (Thumb_MTime info)))
                           then (CAIRO_STATUS_WRITE_ERROR,
                                 info\<lparr>output_file_fd := f3, bytes_written := inject_pos\<rparr>)
                           else png_writer_rest
                                  (info\<lparr>output_file_fd := f3, bytes_written := inject_pos\<rparr>)
                                  (drop (inject_pos - bytes_written info) data))))
      else png_writer_rest info data)"

text \<open>
  \<open>cairo_surface_write_to_png_stream\<close> with \<open>png_writer\<close> as its write function: the
  encoder hands over its output call by call, stops at the first call that does not
  return \<open>CAIRO_STATUS_SUCCESS\<close> and returns that status, and returns its own status
  when every call succeeded.
\<close>

fun write_calls :: "bytes list \<Rightarrow> png_writer_info \<Rightarrow> cairo_status_t \<times> png_writer_info" where
  "write_calls [] info = (CAIRO_STATUS_SUCCESS, info)"
| "write_calls (data # calls) info =
     (case png_writer info data of
        (CAIRO_STATUS_SUCCESS, info') \<Rightarrow> write_calls calls info'
      | (status, info') \<Rightarrow> (status, info'))"

definition cairo_surface_write_to_png_stream ::
  "surface \<Rightarrow> png_writer_info \<Rightarrow> cairo_status_t \<times> png_writer_info" where
  "cairo_surface_write_to_png_stream s info =
     (case write_calls (png_calls s) info of
        (CAIRO_STATUS_SUCCESS, info') \<Rightarrow> (png_status s, info')
      | (status, info') \<Rightarrow> (status, info'))"

text \<open>
  The content of a file opened with \<open>O_CREAT | O_WRONLY\<close> (no \<open>O_TRUNC\<close>) once
  \<open>written\<close> has been written from its start: bytes of an older, longer content stay.
\<close>

definition overwritten :: "bytes option \<Rightarrow> bytes \<Rightarrow> bytes" where
  "overwritten old written =
     (case old of None \<Rightarrow> written | Some content \<Rightarrow> written @ drop (length written) content)"

text \<open>
  \<open>store_thumbnail_to_cache\<close> from line 399 on, for the level chosen in lines 389 to
  397. The result is the value returned and the regular files afterwards. \<open>g_open\<close>
  creates a missing file whenever it succeeds; the source goes on only when the
  descriptor is positive, and \<open>retval\<close> is changed in one place, line 424.
\<close>

definition store_at_level :: "env \<Rightarrow> file_t \<Rightarrow> nat \<Rightarrow> bool \<times> (string \<Rightarrow> bytes option)" where
  "store_at_level e file thumbnail_level =
     (case get_local_filename e file of
        None \<Rightarrow> (False, files e)
      | Some local_filename \<Rightarrow>
          (let file_mtime = (case stat_mtime e local_filename of
                               Some t \<Rightarrow> t
                             | None \<Rightarrow> uninitialised_mtime e);
               file_uri = ''file://'' @ local_filename;
               md5_filename = g_compute_checksum_md5 e file_uri;
               thumbnail_file = thumbnail_candidate (get_thumbnail_cache_directory e)
                                  thumbnail_level md5_filename;
               file_fd = open_creat_wronly e thumbnail_file
           in
             if file_fd > 0 then
               (case cairo_surface_write_to_png_stream (thumbnail file)
                       \<lparr>output_file_fd = \<lparr>fd_written = [], fd_room = write_room e\<rparr>,
                        bytes_written = 0,
                        Thumb_URI = file_uri,
                        Thumb_MTime = printf_lu file_mtime\<rparr> of
                  (status, info) \<Rightarrow>
                    if status \<noteq> CAIRO_STATUS_SUCCESS
                    then (False, (files e)(thumbnail_file := None))
                    else (True,
                          (files e)(thumbnail_file \<mapsto>
                             overwritten (files e thumbnail_file)
                               (fd_written (output_file_fd info)))))
             else if file_fd = 0 then
               (True, (files e)(thumbnail_file \<mapsto> overwritten (files e thumbnail_file) []))
             else (True, files e)))"

definition store_thumbnail_to_cache :: "env \<Rightarrow> file_t \<Rightarrow> bool \<times> (string \<Rightarrow> bytes option)" where
  "store_thumbnail_to_cache e file =
     (let width = surface_width (thumbnail file);
          height = surface_height (thumbnail file)
      in
        if width = 256 \<or> height = 256 then store_at_level e file 0
        else if width = 128 \<or> height = 128 then store_at_level e file 1
        else (False, files e))"


section \<open>The container format, as the specification words it\<close>

text \<open>
  The definitions of this section follow the specification, not the source; the
  theorems below compare the two. A chunk is a 4-byte big-endian payload length, a
  4-byte type, the payload and a 4-byte big-endian checksum, the CRC-32 of type and
  payload. A metadata chunk has the type \<open>tEXt\<close> and the payload key, NUL, value.
\<close>

datatype chunk = Chunk (chunk_type: bytes) (chunk_payload: bytes) (chunk_crc: uint32)

definition chunk_bytes :: "chunk \<Rightarrow> bytes" where
  "chunk_bytes c =
     htonl_bytes (of_nat (length (chunk_payload c))) @ chunk_type c @ chunk_payload c
       @ htonl_bytes (chunk_crc c)"

definition text_chunk :: "string \<Rightarrow> string \<Rightarrow> chunk" where
  "text_chunk key val =
     Chunk ''tEXt'' (key @ [NUL] @ val) (crc32_ref (''tEXt'' @ key @ [NUL] @ val))"

text \<open>The one-shot splice: the two metadata chunks put into a stream at \<open>INJECT_AT\<close>.\<close>

definition INJECT_AT :: nat where
  "INJECT_AT = 8 + (8 + 13 + 4)"

definition spliced :: "string \<Rightarrow> string \<Rightarrow> bytes \<Rightarrow> bytes" where
  "spliced uri mtime stream =
     take INJECT_AT stream
       @ chunk_bytes (text_chunk ''Thumb::URI'' uri)
       @ chunk_bytes (text_chunk ''Thumb::MTime'' mtime)
       @ drop INJECT_AT stream"

text \<open>
  A chunk as the format allows it: a type of four bytes and a payload of at most
  \<open>2 ^ 31 - 1\<close> bytes.
\<close>

definition chunk_ok :: "chunk \<Rightarrow> bool" where
  "chunk_ok c = (length (chunk_type c) = 4 \<and> length (chunk_payload c) < 2 ^ 31)"

text \<open>A metadata chunk whose stored checksum is the CRC-32 of its type and payload.\<close>

definition crc_valid_text :: "chunk \<Rightarrow> bool" where
  "crc_valid_text c =
     (chunk_type c = ''tEXt'' \<and> chunk_crc c = crc32_ref (''tEXt'' @ chunk_payload c))"

definition keyed :: "string \<Rightarrow> chunk \<Rightarrow> bool" where
  "keyed key c = (crc_valid_text c \<and> prefix (key @ [NUL]) (chunk_payload c))"

definition chunk_value :: "string \<Rightarrow> chunk \<Rightarrow> bytes" where
  "chunk_value key c = drop (length key + 1) (chunk_payload c)"

text \<open>
  The most recently seen checksum-valid chunk with the key, among \<open>cs\<close>, matches: its
  value begins with the expected string. No such chunk, no match.
\<close>

definition latest_matches :: "string \<Rightarrow> string \<Rightarrow> chunk list \<Rightarrow> bool" where
  "latest_matches key expected cs =
     (case filter (keyed key) cs of
        [] \<Rightarrow> False
      | c # ks \<Rightarrow> prefix expected (chunk_value key (last (c # ks))))"

text \<open>
  The comparisons of the scanner stay inside the payload of a checksum-valid metadata
  chunk: the payload has the NUL that ends its key, and where the key is one of the
  two, the value is not a proper beginning of the expected string.
\<close>

definition within_payload :: "string \<Rightarrow> string \<Rightarrow> chunk \<Rightarrow> bool" where
  "within_payload uri mtime c =
     (if crc_valid_text c
      then NUL \<in> set (chunk_payload c)
           \<and> (if keyed ''Thumb::URI'' c
                then \<not> strict_prefix (chunk_value ''Thumb::URI'' c) uri
                else True)
           \<and> (if keyed ''Thumb::MTime'' c
                then \<not> strict_prefix (chunk_value ''Thumb::MTime'' c) mtime
                else True)
      else True)"

text \<open>
  The payload of a metadata chunk that a single \<open>read\<close> transfers, and the chunks of a
  file that the forward scan reaches: those before the first metadata chunk whose
  payload \<open>read\<close> does not transfer in one call, where the scan ends.
\<close>

definition one_read :: "chunk \<Rightarrow> bool" where
  "one_read c =
     (if chunk_type c = ''tEXt'' then length (chunk_payload c) \<le> MAX_RW_COUNT else True)"

definition scanned :: "chunk list \<Rightarrow> chunk list" where
  "scanned cs = takeWhile one_read cs"

text \<open>
  The candidates that a search tries which takes them in order and ends with the
  first one that \<open>stops\<close> it.
\<close>

fun tried_until :: "('a \<Rightarrow> bool) \<Rightarrow> 'a list \<Rightarrow> 'a list" where
  "tried_until stops [] = []"
| "tried_until stops (c # cs) = (if stops c then [c] else c # tried_until stops cs)"

text \<open>
  What the two flags of the scanner are after a chunk, from what they were before it.
\<close>

definition chunk_flags :: "string \<Rightarrow> string \<Rightarrow> chunk \<Rightarrow> bool \<times> bool \<Rightarrow> bool \<times> bool" where
  "chunk_flags uri mtime c flags =
     (if keyed ''Thumb::URI'' c then prefix uri (chunk_value ''Thumb::URI'' c) else fst flags,
      if keyed ''Thumb::MTime'' c then prefix mtime (chunk_value ''Thumb::MTime'' c) else snd flags)"

text \<open>
  What the interceptor has handed to the file once the encoder has delivered \<open>stream\<close>:
  the stream itself before \<open>INJECT_AT\<close> is reached, the spliced stream from then on.
\<close>

definition forwarded :: "string \<Rightarrow> string \<Rightarrow> bytes \<Rightarrow> bytes" where
  "forwarded uri mtime stream =
     (if length stream < INJECT_AT then stream else spliced uri mtime stream)"

section \<open>A worked example\<close>

text \<open>
  The scenario of the specification: the source \<open>/home/u/pic.jpg\<close>, last modified at
  1700000000, with a thumbnail of 256 by 170 pixels, no \<open>XDG_CACHE_HOME\<close> and the home
  directory \<open>/home/u\<close>. The thumbnail is fully transparent; the encoder hands over the
  file header and three chunks, one call each. \<open>wide_surface\<close> is a bitmap of 300 by
  256 pixels. The two digests are the MD5 sums of the strings they stand for.
\<close>

definition pic_chunks :: "chunk list" where
  "pic_chunks =
     [Chunk ''IHDR'' [NUL, NUL, CHR 0x01, NUL, NUL, NUL, NUL, CHR 0xAA, CHR 0x08, CHR 0x06, NUL, NUL, NUL] 0x4282915A,
      Chunk ''IDAT''
        ([CHR 0x78, CHR 0xDA, CHR 0xED, CHR 0xC1, CHR 0x31, CHR 0x01, NUL, NUL, NUL, CHR 0xC2, CHR 0xA0, CHR 0xF5, CHR 0x4F, CHR 0x6D, CHR 0x0A, CHR 0x3F, CHR 0xA0]
         @ replicate 168 NUL
         @ [CHR 0x80, CHR 0xBF, CHR 0x01, CHR 0xA8, CHR 0xC8, NUL, CHR 0x01])
        0x248EFAE6,
      Chunk ''IEND'' [] 0xAE426082]"

definition pic_surface :: surface where
  "pic_surface =
     \<lparr>surface_width = 256, surface_height = 170,
      png_calls = expected_header # map chunk_bytes pic_chunks,
      png_status = CAIRO_STATUS_SUCCESS\<rparr>"

definition wide_chunks :: "chunk list" where
  "wide_chunks =
     [Chunk ''IHDR'' [NUL, NUL, CHR 0x01, CHR 0x2C, NUL, NUL, CHR 0x01, NUL, CHR 0x08, CHR 0x06, NUL, NUL, NUL] 0x09134B38,
      Chunk ''IDAT''
        ([CHR 0x78, CHR 0xDA, CHR 0xED, CHR 0xC1, CHR 0x01, CHR 0x0D, NUL, NUL, NUL, CHR 0xC2, CHR 0xA0, CHR 0xF7, CHR 0x4F, CHR 0x6D, CHR 0x0E, CHR 0x37, CHR 0xA0]
         @ replicate 297 NUL
         @ [CHR 0x80, CHR 0x37, CHR 0x03, CHR 0xB1, CHR 0x3C, NUL, CHR 0x01])
        0x6FAD3A63,
      Chunk ''IEND'' [] 0xAE426082]"

definition wide_surface :: surface where
  "wide_surface =
     \<lparr>surface_width = 300, surface_height = 256,
      png_calls = expected_header # map chunk_bytes wide_chunks,
      png_status = CAIRO_STATUS_SUCCESS\<rparr>"

definition pic_file :: file_t where
  "pic_file =
     \<lparr>file_flags = 0, display_name = ''pic.jpg'', file_name = ''/home/u/pic.jpg'',
      thumbnail = pic_surface\<rparr>"

definition wide_file :: file_t where
  "wide_file = pic_file\<lparr>thumbnail := wide_surface\<rparr>"

definition pic_uri :: string where
  "pic_uri = ''file:///home/u/pic.jpg''"

definition pic_entry :: string where
  "pic_entry = ''/home/u/.cache/thumbnails/large/a258ff570a65a6b19ad4737b46f6c3ae.png''"

definition home_env :: env where
  "home_env =
     \<lparr>FILE_FLAGS_MEMORY_IMAGE = 2,
      g_file_get_path = (\<lambda>name. Some name),
      g_getenv = (\<lambda>var. if var = ''HOME'' then Some ''/home/u'' else None),
      g_build_filename = (\<lambda>parts. case parts of [] \<Rightarrow> []
                                     | p # ps \<Rightarrow> foldl (\<lambda>a b. a @ ''/'' @ b) p ps),
      g_path_get_dirname = (\<lambda>path. take (length path - length (after_last_separator path) - 1) path),
      g_path_get_basename = after_last_separator,
      g_compute_checksum_md5 =
        (\<lambda>s. if s = ''file:///home/u/pic.jpg'' then ''a258ff570a65a6b19ad4737b46f6c3ae''
             else if s = ''pic.jpg'' then ''718c64db364a36b690a522b5076ec9d9''
             else ''d41d8cd98f00b204e9800998ecf8427e''),
      stat_mtime = (\<lambda>path. if path = ''/home/u/pic.jpg'' then Some 1700000000 else None),
      uninitialised_mtime = 0,
      freed_basename = [],
      files = (\<lambda>path. None),
      file_test_exists = (\<lambda>path. False),
      file_test_is_dir = (\<lambda>path. False),
      open_creat_wronly = (\<lambda>path. 3),
      write_room = 1000000,
      cairo_image_surface_create_from_png = (\<lambda>path. None),
      scaled_surface = (\<lambda>s width height. None)\<rparr>"

text \<open>
  The same surroundings when the directory \<open>large\<close> is missing from the cache
  directory (nothing in this file creates it): the thumbnail file cannot be opened.
\<close>

definition no_large_env :: env where
  "no_large_env = home_env\<lparr>open_creat_wronly := (\<lambda>path. - 1)\<rparr>"

text \<open>
  The surroundings after the thumbnail has been stored and the source then deleted:
  \<open>stat\<close> fails, and \<open>file_stat.st_mtime\<close> still holds what the call that stored the
  thumbnail left in that place of the stack.
\<close>

definition vanished_env :: env where
  "vanished_env =
     home_env\<lparr>files := snd (store_thumbnail_to_cache home_env pic_file),
              file_test_exists := (\<lambda>path. path = pic_entry),
              stat_mtime := (\<lambda>path. None),
              uninitialised_mtime := 1700000000,
              cairo_image_surface_create_from_png :=
                (\<lambda>path. if path = pic_entry then Some pic_surface else None)\<rparr>"

text \<open>
  The surroundings after the thumbnail has been stored, the source still in place.
\<close>

definition cached_env :: env where
  "cached_env =
     home_env\<lparr>files := snd (store_thumbnail_to_cache home_env pic_file),
              file_test_exists := (\<lambda>path. path = pic_entry),
              cairo_image_surface_create_from_png :=
                (\<lambda>path. if path = pic_entry then Some pic_surface else None)\<rparr>"

text \<open>
  The surroundings with a shared thumbnail directory \<open>/home/u/.sh_thumbnails\<close> beside
  the source, and no thumbnail anywhere.
\<close>

definition shared_env :: env where
  "shared_env = home_env\<lparr>file_test_is_dir := (\<lambda>path. path = ''/home/u/.sh_thumbnails'')\<rparr>"

text \<open>An image that has been loaded from memory: it has no local file name.\<close>

definition memory_file :: file_t where
  "memory_file = pic_file\<lparr>file_flags := 2\<rparr>"

declare scan_chunks.simps [simp del]
declare decimal.simps [simp del]

section \<open>Properties of the CRC\<close>

text \<open>
  The table lookup of \<open>crc\<close> is eight rounds of the bitwise algorithm: \<open>crc_round\<close>
  is linear for XOR, and on a value whose low eight bits are clear eight rounds are a
  shift by eight.
\<close>


lemma crc_round_alt: "crc_round c = drop_bit 1 c XOR (if bit c 0 then 0xedb88320 else 0)"
  by (simp add: crc_round_def and_one_eq bit_0 xor.commute mod_2_eq_odd)

lemma crc_round_xor: "crc_round (x XOR y) = crc_round x XOR crc_round y"
  by (simp add: crc_round_alt bit_xor_iff xor.commute xor.left_commute xor.assoc)

lemma crc_rounds_xor: "(crc_round ^^ k) (x XOR y) = (crc_round ^^ k) x XOR (crc_round ^^ k) y"
  by (induction k) (simp_all add: crc_round_xor)

lemma crc_rounds_high:
  "take_bit 8 x = 0 \<Longrightarrow> k \<le> 8 \<Longrightarrow> (crc_round ^^ k) x = drop_bit k x"
proof (induction k)
  case 0
  then show ?case by simp
next
  case (Suc k)
  have "\<not> bit (take_bit 8 x) k" using Suc.prems by simp
  moreover have "bit (take_bit 8 x) k = (k < 8 \<and> bit x k)" by (rule bit_take_bit_iff)
  ultimately have "\<not> bit x k" using Suc.prems by simp
  then have "\<not> bit (drop_bit k x) 0" by (simp add: bit_drop_bit_eq)
  then have "crc_round (drop_bit k x) = drop_bit (Suc k) x"
    by (simp add: crc_round_alt)
  then show ?case using Suc by simp
qed

lemma ff_mask: "(0xff :: ulong) = mask 8"
  by (simp add: mask_eq_exp_minus_1)

lemma crc_rounds_split:
  "(crc_round ^^ 8) x = (crc_round ^^ 8) (x AND 0xff) XOR drop_bit 8 x"
proof -
  define lo where "lo = x AND 0xff"
  define hi where "hi = x XOR lo"
  have lo: "lo = take_bit 8 x" by (simp add: lo_def ff_mask take_bit_eq_mask)
  have x: "x = lo XOR hi" by (simp add: hi_def xor.commute xor.left_commute)
  have "take_bit 8 hi = 0" by (simp add: hi_def lo)
  then have "(crc_round ^^ 8) hi = drop_bit 8 hi" by (rule crc_rounds_high) simp
  moreover have "drop_bit 8 hi = drop_bit 8 x" by (simp add: hi_def lo drop_bit_take_bit)
  ultimately have "(crc_round ^^ 8) (lo XOR hi) = (crc_round ^^ 8) lo XOR drop_bit 8 x"
    by (simp add: crc_rounds_xor)
  moreover have "(crc_round ^^ 8) x = (crc_round ^^ 8) (lo XOR hi)"
    by (rule arg_cong [OF x])
  ultimately show ?thesis
    unfolding lo_def by simp
qed

lemma make_crc_table_nth:
  "make_crc_table ! unat (x AND 0xff) = (crc_round ^^ 8) (x AND 0xff)"
proof -
  have "unat (x AND 0xff) \<le> unat (0xff :: ulong)"
    by (rule word_and_le1 [THEN word_le_nat_alt [THEN iffD1]])
  then have "unat (x AND 0xff) < 256" by simp
  then show ?thesis
    by (simp add: make_crc_table_def crc_table_entry_def)
qed

lemma of_char_less_256: "(of_char b :: nat) < 256"
proof -
  have "(of_char b :: nat) mod 256 < 256" by simp
  then show ?thesis by (simp only: of_char_mod_256)
qed

lemma of_char_high: "drop_bit 8 (of_char b :: ulong) = 0"
proof -
  have n: "take_bit 8 (of_char b :: nat) = of_char b"
    by (simp add: take_bit_eq_mod)
  have "take_bit 8 (of_char b :: ulong) = take_bit 8 (of_nat (of_char b))"
    by (simp only: of_nat_of_char)
  also have "\<dots> = of_nat (take_bit 8 (of_char b :: nat))"
    by (rule take_bit_of_nat)
  also have "\<dots> = of_nat (of_char b)"
    by (simp only: n)
  also have "\<dots> = of_char b"
    by (rule of_nat_of_char)
  finally have "drop_bit 8 (of_char b :: ulong) = drop_bit 8 (take_bit 8 (of_char b :: ulong))"
    by simp
  then show ?thesis by (simp add: drop_bit_take_bit)
qed

lemma crc_update_bitwise:
  "crc_update make_crc_table b c = (crc_round ^^ 8) (c XOR of_char b)"
  using crc_rounds_split [of "c XOR of_char b"]
  by (simp add: crc_update_def make_crc_table_nth of_char_high)

lemma drop_bit_ucast32: "drop_bit 1 (ucast (r :: uint32) :: ulong) = ucast (drop_bit 1 r)"
  by (rule bit_word_eqI) (auto simp add: bit_simps dest: bit_imp_le_length)

lemma poly_ucast: "(ucast (0xEDB88320 :: uint32) :: ulong) = 0xedb88320"
  by simp

lemma crc_round_ucast: "crc_round (ucast r) = ucast (crc32_ref_bit r)"
proof -
  have b: "bit (ucast r :: ulong) 0 = bit r 0" by (simp add: bit_simps)
  show ?thesis
    by (simp only: crc_round_alt crc32_ref_bit_def b drop_bit_ucast32 unsigned_xor_eq poly_ucast
         if_distrib [of ucast] split: if_split) simp
qed

lemma crc_rounds_ucast: "(crc_round ^^ k) (ucast r) = ucast ((crc32_ref_bit ^^ k) r)"
  by (induction k) (simp_all add: crc_round_ucast)

lemma of_char_ucast: "(of_char b :: ulong) = ucast (of_char b :: uint32)"
proof -
  have "(of_char b :: nat) < 2 ^ 32" by (rule less_trans [OF of_char_less_256]) simp
  then have "take_bit 32 (of_char b :: nat) = of_char b"
    by (simp only: take_bit_nat_eq_self_iff)
  then have "(ucast (of_nat (of_char b) :: uint32) :: ulong) = of_nat (of_char b)"
    by (simp add: unsigned_of_nat)
  then show ?thesis by (simp only: of_nat_of_char)
qed

lemma crc_fold_ucast:
  "fold (crc_update make_crc_table) buf (ucast r) = ucast (fold crc32_ref_byte buf r)"
proof (induction buf arbitrary: r)
  case Nil
  show ?case by simp
next
  case (Cons b buf)
  have "crc_update make_crc_table b (ucast r) = ucast (crc32_ref_byte b r)"
    by (simp only: crc_update_bitwise crc32_ref_byte_def of_char_ucast
          unsigned_xor_eq [symmetric] crc_rounds_ucast)
  then show ?case using Cons.IH by simp
qed

lemma crc_whole: "crc c buf (int (length buf)) = crc_with make_crc_table c buf"
  by (simp add: crc_def)

lemma crc_eq_ref: "crc 0 buf (int (length buf)) = ucast (crc32_ref buf)"
proof -
  have "(0 XOR 0xffffffff :: ulong) = ucast (0xFFFFFFFF :: uint32)" by simp
  then have "fold (crc_update make_crc_table) buf (0 XOR 0xffffffff)
      = ucast (fold crc32_ref_byte buf 0xFFFFFFFF)"
    by (simp only: crc_fold_ucast)
  moreover have "(0xffffffff :: ulong) = ucast (0xFFFFFFFF :: uint32)" by simp
  ultimately show ?thesis
    by (simp only: crc_whole crc_with_def crc32_ref_def unsigned_xor_eq)
qed

lemma ucast_crc: "(ucast (crc 0 buf (int (length buf))) :: uint32) = crc32_ref buf"
proof -
  have "(ucast (ucast (crc32_ref buf) :: ulong) :: uint32) = crc32_ref buf"
    by (rule bit_word_eqI) (auto simp add: bit_simps)
  then show ?thesis by (simp only: crc_eq_ref)
qed

lemma crc_with_chain:
  "crc_with tbl (crc_with tbl c xs) ys = crc_with tbl c (xs @ ys)"
  by (simp add: crc_with_def xor.assoc)

lemma crc_chain:
  "crc (crc c xs (int (length xs))) ys (int (length ys)) = crc c (xs @ ys) (int (length (xs @ ys)))"
  by (simp only: crc_whole crc_with_chain)

lemma crc_static_initial:
  "crc_static crc_globals_initial c buf len = (crc c buf len, crc_globals_filled)"
  by (simp add: crc_static_def crc_globals_initial_def crc_globals_filled_def crc_def)

lemma crc_static_filled:
  "crc_static crc_globals_filled c buf len = (crc c buf len, crc_globals_filled)"
  by (simp add: crc_static_def crc_globals_filled_def crc_def)

lemma crc_rounds_8: "(crc_round ^^ 8) x =
  crc_round (crc_round (crc_round (crc_round (crc_round (crc_round (crc_round (crc_round x)))))))"
  by (simp add: eval_nat_numeral)

lemmas crc_eval = crc_def crc_with_def crc_update_bitwise crc_rounds_8 crc_round_def


text \<open>
  C6. \<open>crc\<close> is the standard CRC-32 of PNG. The table has 256 entries, entry \<open>n\<close> being
  eight rounds with the polynomial \<open>0xEDB88320\<close> applied to \<open>n\<close>; the running value
  starts as the seed XOR \<open>0xFFFFFFFF\<close>, is updated byte by byte through the table, and
  is XOR-ed with \<open>0xFFFFFFFF\<close> at the end. With seed 0 the result over no bytes is 0,
  and over any bytes it is the value of the bitwise 32-bit reference algorithm. The
  result is a function of the arguments alone, whether or not the table had been
  filled by an earlier call. Two known values: the check value \<open>0xCBF43926\<close> of
  "123456789", and \<open>0xDAAF7314\<close> for \<open>tEXt\<close> followed by the payload
  \<open>Thumb::URI\<close>, NUL, \<open>file:///home/u/pic.jpg\<close>.
\<close>

theorem crc_is_png_crc32:
  "length make_crc_table = 256
   \<and> make_crc_table = map (\<lambda>n. (crc_round ^^ 8) (of_nat n)) [0..<256]
   \<and> crc_round 1 = 0xEDB88320
   \<and> crc c buf (int (length buf))
       = fold (\<lambda>b r. (make_crc_table ! unat ((r XOR of_char b) AND 0xff)) XOR drop_bit 8 r)
           buf (c XOR 0xFFFFFFFF) XOR 0xFFFFFFFF
   \<and> crc 0 [] 0 = 0
   \<and> crc 0 buf (int (length buf)) = ucast (crc32_ref buf)
   \<and> fst (crc_static crc_globals_initial c buf len) = crc c buf len
   \<and> fst (crc_static crc_globals_filled c buf len) = crc c buf len
   \<and> crc 0 ''123456789'' 9 = 0xCBF43926
   \<and> crc 0 (''tEXt'' @ ''Thumb::URI'' @ [NUL] @ ''file:///home/u/pic.jpg'') 37 = 0xDAAF7314"
proof -
  have table: "make_crc_table = map (\<lambda>n. (crc_round ^^ 8) (of_nat n)) [0..<256]"
    unfolding make_crc_table_def crc_table_entry_def ..
  have len: "length make_crc_table = 256"
    by (simp add: make_crc_table_def)
  have poly: "crc_round 1 = 0xEDB88320"
    by (simp add: crc_round_def)
  have "crc_update make_crc_table
          = (\<lambda>b r. (make_crc_table ! unat ((r XOR of_char b) AND 0xff)) XOR drop_bit 8 r)"
    by (rule ext, rule ext) (simp only: crc_update_def)
  then have loop: "crc c buf (int (length buf))
      = fold (\<lambda>b r. (make_crc_table ! unat ((r XOR of_char b) AND 0xff)) XOR drop_bit 8 r)
          buf (c XOR 0xFFFFFFFF) XOR 0xFFFFFFFF"
    by (simp only: crc_whole crc_with_def)
  have empty: "crc 0 [] 0 = 0"
    by (simp add: crc_def crc_with_def)
  have v1: "crc 0 ''123456789'' 9 = 0xCBF43926"
    by (simp add: crc_eval)
  have v2: "crc 0 (''tEXt'' @ ''Thumb::URI'' @ [NUL] @ ''file:///home/u/pic.jpg'') 37 = 0xDAAF7314"
    by (simp add: crc_eval)
  show ?thesis
    using table len poly loop empty v1 v2
    by (simp only: crc_eq_ref crc_static_initial crc_static_filled fst_conv simp_thms)
qed

section \<open>Byte order\<close>

lemma length_htonl_bytes: "length (htonl_bytes v) = 4"
  by (simp add: htonl_bytes_def)

lemma of_char_char_of_unat: "(of_char (char_of (unat y)) :: uint32) = take_bit 8 y"
proof -
  have "(of_char (char_of (unat y)) :: uint32) = of_nat (of_char (char_of (unat y)))"
    by (simp only: of_nat_of_char)
  also have "\<dots> = of_nat (take_bit 8 (unat y))"
    by (simp add: take_bit_eq_mod)
  also have "\<dots> = take_bit 8 (of_nat (unat y))"
    by (simp only: take_bit_of_nat)
  finally show ?thesis by simp
qed

lemma ntohl_htonl: "ntohl_bytes (htonl_bytes v @ rest) = v"
proof -
  have "push_bit 24 (take_bit 8 (drop_bit 24 v)) OR push_bit 16 (take_bit 8 (drop_bit 16 v))
          OR push_bit 8 (take_bit 8 (drop_bit 8 v)) OR take_bit 8 v = v"
  proof (rule bit_word_eqI)
    fix n
    assume "n < LENGTH(32)"
    then have n: "n < 32" by simp
    consider "n < 8" | "8 \<le> n" "n < 16" | "16 \<le> n" "n < 24" | "24 \<le> n"
      by linarith
    then show "bit (push_bit 24 (take_bit 8 (drop_bit 24 v))
                  OR push_bit 16 (take_bit 8 (drop_bit 16 v))
                  OR push_bit 8 (take_bit 8 (drop_bit 8 v)) OR take_bit 8 v) n = bit v n"
      using n by cases (auto simp add: bit_simps)
  qed
  then show ?thesis
    by (simp add: htonl_bytes_def of_char_char_of_unat)
qed

lemma unat_of_nat32: "n < 2 ^ 32 \<Longrightarrow> unat (of_nat n :: uint32) = n"
  by (simp add: unat_of_nat)

lemma sint_of_nat32: "n < 2 ^ 31 \<Longrightarrow> sint (of_nat n :: uint32) = int n"
  by (simp add: signed_of_nat signed_take_bit_int_eq_self)

section \<open>String comparisons\<close>

lemma c_strncmp_type: "length ty = 4 \<Longrightarrow> c_strncmp_eq ty ''tEXt'' 4 = Some (ty = ''tEXt'')"
proof -
  assume "length ty = 4"
  then obtain a b c d where ty: "ty = [a, b, c, d]"
    by (auto simp add: length_Suc_conv eval_nat_numeral)
  show ?thesis
    unfolding ty by (auto simp add: eval_nat_numeral)
qed

lemma c_strcmp_eq_prefix:
  "NUL \<in> set buf \<Longrightarrow> NUL \<notin> set lit \<Longrightarrow> c_strcmp_eq buf lit = Some (prefix (lit @ [NUL]) buf)"
  by (induction buf lit rule: c_strcmp_eq.induct) auto

lemma c_strncmp_eq_prefix:
  "NUL \<notin> set str \<Longrightarrow>
   c_strncmp_eq buf str (length str)
     = (if prefix str buf then Some True
        else if strict_prefix buf str then None
        else Some False)"
proof (induction str arbitrary: buf)
  case Nil
  show ?case by simp
next
  case (Cons b str)
  show ?case
  proof (cases buf)
    case Nil
    then show ?thesis by simp
  next
    case (Cons a buf')
    with Cons.IH [of buf'] Cons.prems show ?thesis
      by (auto simp add: strict_prefix_def)
  qed
qed

lemma decimal_no_NUL: "NUL \<notin> set (decimal n)"
proof (induction n rule: decimal.induct)
  case (1 n)
  have d: "char_of (48 + k) \<noteq> NUL" if "k < 10" for k :: nat
  proof -
    have "48 + k < 2 ^ 8" using that by simp
    then have "take_bit 8 (48 + k) = 48 + k" by (simp only: take_bit_nat_eq_self_iff)
    then show ?thesis by (simp add: char_of_eq_iff)
  qed
  show ?case
  proof (cases "n < 10")
    case True
    then show ?thesis using d [of n] by (subst decimal.simps) simp
  next
    case False
    have "n mod 10 < 10" by simp
    then have "char_of (48 + n mod 10) \<noteq> NUL" by (rule d)
    with False 1 show ?thesis by (subst decimal.simps) auto
  qed
qed

lemma printf_lu_no_NUL: "NUL \<notin> set (printf_lu v)"
  by (simp add: printf_lu_def decimal_no_NUL del: decimal.simps)

section \<open>One chunk of the scan\<close>

lemma read_count_enough:
  "count \<le> available \<Longrightarrow> count \<le> MAX_RW_COUNT \<Longrightarrow> read_count available count = count"
  by (simp add: read_count_def)

lemma read_count_8: "(read_count available 8 = 8) = (8 \<le> available)"
  by (auto simp add: read_count_def MAX_RW_COUNT_def)

lemma read_count_4: "(read_count available 4 = 4) = (4 \<le> available)"
  by (auto simp add: read_count_def MAX_RW_COUNT_def)

lemma read_count_short: "MAX_RW_COUNT < count \<Longrightarrow> read_count available count \<noteq> count"
  by (simp add: read_count_def)

lemma chunk_layout:
  assumes "length ty = 4"
  shows "read_count (length (chunk_bytes (Chunk ty payload k) @ rest)) 8 = 8"
    and "take 4 (chunk_bytes (Chunk ty payload k) @ rest) = htonl_bytes (of_nat (length payload))"
    and "take 4 (drop 4 (chunk_bytes (Chunk ty payload k) @ rest)) = ty"
    and "drop 8 (chunk_bytes (Chunk ty payload k) @ rest) = payload @ htonl_bytes k @ rest"
  using assms by (simp_all add: chunk_bytes_def length_htonl_bytes read_count_8)

lemma ntohl_htonl_only: "ntohl_bytes (htonl_bytes v) = v"
  using ntohl_htonl [of v "[]"] by simp

lemma scan_chunks_skip:
  assumes ty: "length ty = 4" "ty \<noteq> ''tEXt''"
    and len: "length payload + 4 < 2 ^ 32"
  shows "scan_chunks u m a b (chunk_bytes (Chunk ty payload k) @ rest) = scan_chunks u m a b rest"
proof -
  have "(of_nat (length payload) + 4 :: uint32) = of_nat (length payload + 4)"
    by simp
  then have "unat (of_nat (length payload) + 4 :: uint32) = length payload + 4"
    using len by (simp only: unat_of_nat32)
  then have skip: "unat (ntohl_bytes (htonl_bytes (of_nat (length payload))) + 4) = length payload + 4"
    by (simp only: ntohl_htonl_only)
  define bs where "bs = chunk_bytes (Chunk ty payload k) @ rest"
  note layout = chunk_layout [OF ty(1), of payload k rest, folded bs_def]
  have "scan_chunks u m a b bs = scan_chunks u m a b rest"
    using ty
    by (subst scan_chunks.simps)
       (simp add: layout c_strncmp_type skip length_htonl_bytes)
  then show ?thesis by (simp only: bs_def)
qed

lemma actual_crc:
  assumes "length payload < 2 ^ 31"
  shows "(ucast (crc (crc 0 ''tEXt'' 4) payload (sint (of_nat (length payload) :: uint32))) :: uint32)
           = crc32_ref (''tEXt'' @ payload)"
proof -
  have "sint (of_nat (length payload) :: uint32) = int (length payload)"
    using assms by (rule sint_of_nat32)
  moreover have "crc (crc 0 ''tEXt'' (int (length ''tEXt''))) payload (int (length payload))
      = crc 0 (''tEXt'' @ payload) (int (length (''tEXt'' @ payload)))"
    by (rule crc_chain)
  ultimately have "crc (crc 0 ''tEXt'' 4) payload (sint (of_nat (length payload) :: uint32))
      = crc 0 (''tEXt'' @ payload) (int (length (''tEXt'' @ payload)))"
    by simp
  then show ?thesis by (simp only: ucast_crc)
qed

lemma scan_chunks_text_oversized:
  assumes "MAX_RW_COUNT < length payload" and "length payload < 2 ^ 32"
  shows "scan_chunks u m a b (chunk_bytes (Chunk ''tEXt'' payload k) @ rest) = Some False"
proof -
  have u: "unat (of_nat (length payload) :: uint32) = length payload"
    using assms(2) by (rule unat_of_nat32)
  have ty: "length ''tEXt'' = 4" by simp
  define bs where "bs = chunk_bytes (Chunk ''tEXt'' payload k) @ rest"
  note layout = chunk_layout [OF ty, of payload k rest, folded bs_def]
  have "scan_chunks u m a b bs = Some False"
    by (subst scan_chunks.simps)
       (simp add: layout c_strncmp_type ntohl_htonl_only u read_count_short [OF assms(1)])
  then show ?thesis by (simp only: bs_def)
qed

lemma scan_chunks_text:
  assumes one: "length payload \<le> MAX_RW_COUNT"
  shows "scan_chunks u m a b (chunk_bytes (Chunk ''tEXt'' payload k) @ rest)
     = (if k = crc32_ref (''tEXt'' @ payload)
        then (case update_matches u m a b payload of
                None \<Rightarrow> None
              | Some (a', b') \<Rightarrow> if a' \<and> b' then Some True else scan_chunks u m a' b' rest)
        else scan_chunks u m a b rest)"
proof -
  have len: "length payload < 2 ^ 31" using one by (simp add: MAX_RW_COUNT_def)
  have "length payload < 2 ^ 32" using len by simp
  then have u: "unat (of_nat (length payload) :: uint32) = length payload"
    by (rule unat_of_nat32)
  have ty: "length ''tEXt'' = 4" by simp
  have r1: "read_count (length payload + (4 + length rest)) (length payload) = length payload"
    using one by (intro read_count_enough) simp_all
  define bs where "bs = chunk_bytes (Chunk ''tEXt'' payload k) @ rest"
  note layout = chunk_layout [OF ty, of payload k rest, folded bs_def]
  have "scan_chunks u m a b bs
     = (if k = crc32_ref (''tEXt'' @ payload)
        then (case update_matches u m a b payload of
                None \<Rightarrow> None
              | Some (a', b') \<Rightarrow> if a' \<and> b' then Some True else scan_chunks u m a' b' rest)
        else scan_chunks u m a b rest)"
    by (subst scan_chunks.simps)
       (simp add: layout c_strncmp_type ntohl_htonl_only ntohl_htonl u r1 read_count_4
          length_htonl_bytes actual_crc [OF len] split: option.split)
  then show ?thesis by (simp only: bs_def)
qed

lemma keys_exclusive:
  "prefix (''Thumb::URI'' @ [NUL]) p \<Longrightarrow> \<not> prefix (''Thumb::MTime'' @ [NUL]) p"
  by (auto simp add: prefix_def)

lemma chunk_value_uri: "chunk_value ''Thumb::URI'' c = drop 11 (chunk_payload c)"
proof -
  have "length ''Thumb::URI'' + 1 = 11" by simp
  then show ?thesis by (simp only: chunk_value_def)
qed

lemma chunk_value_mtime: "chunk_value ''Thumb::MTime'' c = drop 13 (chunk_payload c)"
proof -
  have "length ''Thumb::MTime'' + 1 = 13" by simp
  then show ?thesis by (simp only: chunk_value_def)
qed

lemma update_matches_within:
  assumes uri: "NUL \<notin> set uri"
    and c: "crc_valid_text (Chunk ty payload k)"
    and w: "within_payload uri (printf_lu m) (Chunk ty payload k)"
  shows "update_matches uri m a b payload
           = Some (chunk_flags uri (printf_lu m) (Chunk ty payload k) (a, b))"
proof -
  have nul: "NUL \<in> set payload"
    using c w by (simp add: within_payload_def)
  have k1: "c_strcmp_eq payload ''Thumb::URI'' = Some (prefix (''Thumb::URI'' @ [NUL]) payload)"
    by (rule c_strcmp_eq_prefix [OF nul]) simp
  have k2: "c_strcmp_eq payload ''Thumb::MTime'' = Some (prefix (''Thumb::MTime'' @ [NUL]) payload)"
    by (rule c_strcmp_eq_prefix [OF nul]) simp
  show ?thesis
  proof (cases "prefix (''Thumb::URI'' @ [NUL]) payload")
    case True
    then have ku: "keyed ''Thumb::URI'' (Chunk ty payload k)"
      using c by (simp add: keyed_def)
    have km: "\<not> keyed ''Thumb::MTime'' (Chunk ty payload k)"
      using keys_exclusive [OF True] by (simp add: keyed_def)
    have "\<not> strict_prefix (drop 11 payload) uri"
      using c w ku by (simp add: within_payload_def chunk_value_uri)
    then have "c_strncmp_eq (drop 11 payload) uri (length uri) = Some (prefix uri (drop 11 payload))"
      by (simp add: c_strncmp_eq_prefix [OF uri])
    then show ?thesis
      using True ku km by (simp add: update_matches_def k1 chunk_flags_def chunk_value_uri)
  next
    case False
    then have ku: "\<not> keyed ''Thumb::URI'' (Chunk ty payload k)"
      by (simp add: keyed_def)
    show ?thesis
    proof (cases "prefix (''Thumb::MTime'' @ [NUL]) payload")
      case True
      then have km: "keyed ''Thumb::MTime'' (Chunk ty payload k)"
        using c by (simp add: keyed_def)
      have "\<not> strict_prefix (drop 13 payload) (printf_lu m)"
        using c w km by (simp add: within_payload_def chunk_value_mtime)
      then have "c_strncmp_eq (drop 13 payload) (printf_lu m) (length (printf_lu m))
          = Some (prefix (printf_lu m) (drop 13 payload))"
        by (simp add: c_strncmp_eq_prefix [OF printf_lu_no_NUL])
      then show ?thesis
        using False True ku km
        by (simp add: update_matches_def k1 k2 chunk_flags_def chunk_value_mtime Let_def)
    next
      case False2: False
      then have km: "\<not> keyed ''Thumb::MTime'' (Chunk ty payload k)"
        by (simp add: keyed_def)
      show ?thesis
        using False False2 ku km
        by (simp add: update_matches_def k1 k2 chunk_flags_def)
    qed
  qed
qed

lemma chunk_flags_other:
  "\<not> crc_valid_text c \<Longrightarrow> chunk_flags uri mtime c flags = flags"
  by (simp add: chunk_flags_def keyed_def)

text \<open>The scan of one chunk, at the level of chunks.\<close>

lemma scan_chunks_not_read:
  assumes ok: "chunk_ok c" and one: "\<not> one_read c"
  shows "scan_chunks uri m a b (chunk_bytes c @ rest) = Some False"
proof (cases c)
  case (Chunk ty payload k)
  have ty: "ty = ''tEXt''" and big: "MAX_RW_COUNT < length payload"
    using one Chunk by (simp_all add: one_read_def split: if_splits)
  have "length payload < 2 ^ 32"
    using ok Chunk by (simp add: chunk_ok_def)
  with big show ?thesis
    unfolding Chunk ty by (rule scan_chunks_text_oversized)
qed

lemma scan_chunks_chunk:
  assumes uri: "NUL \<notin> set uri"
    and ok: "chunk_ok c"
    and one: "one_read c"
    and w: "within_payload uri (printf_lu m) c"
  shows "scan_chunks uri m a b (chunk_bytes c @ rest)
     = (if crc_valid_text c \<and> fst (chunk_flags uri (printf_lu m) c (a, b))
             \<and> snd (chunk_flags uri (printf_lu m) c (a, b))
        then Some True
        else scan_chunks uri m (fst (chunk_flags uri (printf_lu m) c (a, b)))
               (snd (chunk_flags uri (printf_lu m) c (a, b))) rest)"
proof (cases c)
  case (Chunk ty payload k)
  have ty: "length ty = 4" and len: "length payload < 2 ^ 31"
    using ok Chunk by (simp_all add: chunk_ok_def)
  show ?thesis
  proof (cases "ty = ''tEXt''")
    case False
    have "length payload + 4 < 2 ^ 32" using len by simp
    with ty False have "scan_chunks uri m a b (chunk_bytes (Chunk ty payload k) @ rest)
        = scan_chunks uri m a b rest"
      by (rule scan_chunks_skip)
    moreover have "\<not> crc_valid_text c"
      using False Chunk by (simp add: crc_valid_text_def)
    ultimately show ?thesis
      using Chunk by (simp add: chunk_flags_other)
  next
    case True
    have "length payload \<le> MAX_RW_COUNT"
      using one True Chunk by (simp add: one_read_def)
    note step = scan_chunks_text [OF this, of uri m a b k rest]
    show ?thesis
    proof (cases "k = crc32_ref (''tEXt'' @ payload)")
      case False
      then have "\<not> crc_valid_text c"
        using Chunk by (simp add: crc_valid_text_def)
      then show ?thesis
        using step False True Chunk by (simp add: chunk_flags_other)
    next
      case valid: True
      then have v: "crc_valid_text (Chunk ty payload k)"
        using True by (simp add: crc_valid_text_def)
      have "update_matches uri m a b payload
          = Some (chunk_flags uri (printf_lu m) (Chunk ty payload k) (a, b))"
        using uri v w [unfolded Chunk] by (rule update_matches_within)
      then show ?thesis
        using step valid True v Chunk
        by (simp add: case_prod_beta)
    qed
  qed
qed

lemma exists_take_Cons:
  "(\<exists>n. 0 < n \<and> n \<le> length (c # cs) \<and> P (take n (c # cs)))
     = (P [c] \<or> (\<exists>n. 0 < n \<and> n \<le> length cs \<and> P (c # take n cs)))"
proof
  assume "\<exists>n. 0 < n \<and> n \<le> length (c # cs) \<and> P (take n (c # cs))"
  then obtain n where n: "0 < n" "n \<le> length (c # cs)" "P (take n (c # cs))" by blast
  then obtain k where k: "n = Suc k" by (cases n) auto
  show "P [c] \<or> (\<exists>n. 0 < n \<and> n \<le> length cs \<and> P (c # take n cs))"
  proof (cases k)
    case 0
    then show ?thesis using n k by simp
  next
    case (Suc j)
    then have "0 < k \<and> k \<le> length cs \<and> P (c # take k cs)" using n k by simp
    then show ?thesis by blast
  qed
next
  assume "P [c] \<or> (\<exists>n. 0 < n \<and> n \<le> length cs \<and> P (c # take n cs))"
  then show "\<exists>n. 0 < n \<and> n \<le> length (c # cs) \<and> P (take n (c # cs))"
  proof
    assume "P [c]"
    then have "0 < Suc 0 \<and> Suc 0 \<le> length (c # cs) \<and> P (take (Suc 0) (c # cs))" by simp
    then show ?thesis by blast
  next
    assume "\<exists>n. 0 < n \<and> n \<le> length cs \<and> P (c # take n cs)"
    then obtain n where "0 < n" "n \<le> length cs" "P (c # take n cs)" by blast
    then have "0 < Suc n \<and> Suc n \<le> length (c # cs) \<and> P (take (Suc n) (c # cs))" by simp
    then show ?thesis by blast
  qed
qed

lemma scan_chunks_end: "scan_chunks uri m a b [] = Some False"
  by (subst scan_chunks.simps) (simp add: read_count_8)

lemma scanned_Cons:
  "scanned (c # cs) = (if one_read c then c # scanned cs else [])"
  by (simp add: scanned_def)

lemma scanned_all: "\<forall>c\<in>set cs. one_read c \<Longrightarrow> scanned cs = cs"
  by (simp add: scanned_def)

lemma scan_chunks_all_read:
  assumes uri: "NUL \<notin> set uri"
    and cs: "\<forall>c\<in>set cs. chunk_ok c \<and> one_read c \<and> within_payload uri (printf_lu m) c"
    and ab: "\<not> (a \<and> b)"
  shows "scan_chunks uri m a b (concat (map chunk_bytes cs) @ rest)
     = (if \<exists>n. 0 < n \<and> n \<le> length cs
               \<and> fst (fold (chunk_flags uri (printf_lu m)) (take n cs) (a, b))
               \<and> snd (fold (chunk_flags uri (printf_lu m)) (take n cs) (a, b))
        then Some True
        else scan_chunks uri m
               (fst (fold (chunk_flags uri (printf_lu m)) cs (a, b)))
               (snd (fold (chunk_flags uri (printf_lu m)) cs (a, b))) rest)"
  using cs ab
proof (induction cs arbitrary: a b)
  case Nil
  show ?case by simp
next
  case (Cons c cs)
  let ?F = "chunk_flags uri (printf_lu m)"
  obtain a' b' where f: "?F c (a, b) = (a', b')" by (cases "?F c (a, b)")
  have ok: "chunk_ok c" and one: "one_read c" and w: "within_payload uri (printf_lu m) c"
    using Cons.prems by simp_all
  have step: "scan_chunks uri m a b (chunk_bytes c @ concat (map chunk_bytes cs) @ rest)
     = (if crc_valid_text c \<and> a' \<and> b' then Some True
        else scan_chunks uri m a' b' (concat (map chunk_bytes cs) @ rest))"
    using scan_chunks_chunk [OF uri ok one w, of a b] f by simp
  have split: "(\<exists>n. 0 < n \<and> n \<le> length (c # cs)
                  \<and> fst (fold ?F (take n (c # cs)) (a, b)) \<and> snd (fold ?F (take n (c # cs)) (a, b)))
      = ((a' \<and> b') \<or> (\<exists>n. 0 < n \<and> n \<le> length cs
                  \<and> fst (fold ?F (take n cs) (a', b')) \<and> snd (fold ?F (take n cs) (a', b'))))"
    using exists_take_Cons [of c cs "\<lambda>xs. fst (fold ?F xs (a, b)) \<and> snd (fold ?F xs (a, b))"] f
    by simp
  show ?case
  proof (cases "crc_valid_text c \<and> a' \<and> b'")
    case True
    then show ?thesis using step split by simp
  next
    case False
    have nb: "\<not> (a' \<and> b')"
    proof (cases "crc_valid_text c")
      case True
      then show ?thesis using False by simp
    next
      case False
      then have "?F c (a, b) = (a, b)" by (rule chunk_flags_other)
      then show ?thesis using f Cons.prems by simp
    qed
    have e: "(\<exists>n. 0 < n \<and> n \<le> length (c # cs)
                  \<and> fst (fold ?F (take n (c # cs)) (a, b)) \<and> snd (fold ?F (take n (c # cs)) (a, b)))
      = (\<exists>n. 0 < n \<and> n \<le> length cs
                  \<and> fst (fold ?F (take n cs) (a', b')) \<and> snd (fold ?F (take n cs) (a', b')))"
      using split nb by simp
    have fo: "fold ?F (c # cs) (a, b) = fold ?F cs (a', b')"
      using f by simp
    have "scan_chunks uri m a b (concat (map chunk_bytes (c # cs)) @ rest)
        = scan_chunks uri m a' b' (concat (map chunk_bytes cs) @ rest)"
      using step False by simp
    also have "\<dots> = (if \<exists>n. 0 < n \<and> n \<le> length cs
                 \<and> fst (fold ?F (take n cs) (a', b')) \<and> snd (fold ?F (take n cs) (a', b'))
          then Some True
          else scan_chunks uri m (fst (fold ?F cs (a', b'))) (snd (fold ?F cs (a', b'))) rest)"
      using Cons.prems nb by (intro Cons.IH) simp_all
    finally show ?thesis by (simp only: e fo)
  qed
qed

lemma scanned_split:
  "cs = scanned cs @ drop (length (scanned cs)) cs"
  unfolding scanned_def by (metis takeWhile_dropWhile_id dropWhile_eq_drop)

lemma scan_chunks_list:
  assumes uri: "NUL \<notin> set uri"
    and ok: "\<forall>c\<in>set cs. chunk_ok c"
    and w: "\<forall>c\<in>set (scanned cs). within_payload uri (printf_lu m) c"
    and ab: "\<not> (a \<and> b)"
  shows "scan_chunks uri m a b (concat (map chunk_bytes cs))
     = Some (\<exists>n. 0 < n \<and> n \<le> length (scanned cs)
               \<and> fst (fold (chunk_flags uri (printf_lu m)) (take n (scanned cs)) (a, b))
               \<and> snd (fold (chunk_flags uri (printf_lu m)) (take n (scanned cs)) (a, b)))"
proof -
  let ?F = "chunk_flags uri (printf_lu m)"
  define tl where "tl = drop (length (scanned cs)) cs"
  have cs: "cs = scanned cs @ tl"
    unfolding tl_def by (rule scanned_split)
  have sub: "set (scanned cs) \<subseteq> set cs"
    unfolding scanned_def by (auto dest: set_takeWhileD)
  have all: "\<forall>c\<in>set (scanned cs).
      chunk_ok c \<and> one_read c \<and> within_payload uri (printf_lu m) c"
    using ok w sub by (auto simp add: scanned_def dest: set_takeWhileD)
  have tail: "scan_chunks uri m a' b' (concat (map chunk_bytes tl)) = Some False" for a' b'
  proof (cases tl)
    case Nil
    then show ?thesis by (simp add: scan_chunks_end)
  next
    case (Cons c tl')
    have "c \<in> set cs" using cs Cons by (metis in_set_conv_decomp)
    then have "chunk_ok c" using ok by simp
    moreover have "\<not> one_read c"
      using Cons unfolding tl_def scanned_def
      by (metis dropWhile_eq_drop hd_dropWhile list.sel(1) list.distinct(1))
    ultimately show ?thesis
      using Cons by (simp add: scan_chunks_not_read)
  qed
  have "scan_chunks uri m a b (concat (map chunk_bytes (scanned cs)) @ concat (map chunk_bytes tl))
     = (if \<exists>n. 0 < n \<and> n \<le> length (scanned cs)
               \<and> fst (fold ?F (take n (scanned cs)) (a, b))
               \<and> snd (fold ?F (take n (scanned cs)) (a, b))
        then Some True
        else scan_chunks uri m (fst (fold ?F (scanned cs) (a, b)))
               (snd (fold ?F (scanned cs) (a, b))) (concat (map chunk_bytes tl)))"
    using uri all ab by (rule scan_chunks_all_read)
  moreover have "concat (map chunk_bytes cs)
      = concat (map chunk_bytes (scanned cs)) @ concat (map chunk_bytes tl)"
    by (subst cs) simp
  ultimately show ?thesis by (simp add: tail)
qed

lemma latest_matches_snoc:
  "latest_matches key e (cs @ [c])
     = (if keyed key c then prefix e (chunk_value key c) else latest_matches key e cs)"
  by (cases "filter (keyed key) cs") (simp_all add: latest_matches_def)

lemma fold_chunk_flags:
  "fold (chunk_flags uri mtime) cs (False, False)
     = (latest_matches ''Thumb::URI'' uri cs, latest_matches ''Thumb::MTime'' mtime cs)"
proof (induction cs rule: rev_induct)
  case Nil
  show ?case by (simp add: latest_matches_def)
next
  case (snoc c cs)
  then show ?case by (simp add: latest_matches_snoc chunk_flags_def)
qed

lemma check_png_content_header:
  "check_png_content (expected_header @ rest) uri m = scan_chunks uri m False False rest"
  by (simp add: check_png_content_def expected_header_def read_count_8)

lemma check_png_content_chunks:
  assumes uri: "NUL \<notin> set uri"
    and ok: "\<forall>c\<in>set cs. chunk_ok c"
    and w: "\<forall>c\<in>set (scanned cs). within_payload uri (printf_lu m) c"
  shows "check_png_content (expected_header @ concat (map chunk_bytes cs)) uri m
     = Some (\<exists>n\<le>length (scanned cs).
               latest_matches ''Thumb::URI'' uri (take n (scanned cs))
               \<and> latest_matches ''Thumb::MTime'' (printf_lu m) (take n (scanned cs)))"
proof -
  define ds where "ds = scanned cs"
  have "(\<exists>n. 0 < n \<and> n \<le> length ds
            \<and> latest_matches ''Thumb::URI'' uri (take n ds)
            \<and> latest_matches ''Thumb::MTime'' (printf_lu m) (take n ds))
      = (\<exists>n\<le>length ds. latest_matches ''Thumb::URI'' uri (take n ds)
            \<and> latest_matches ''Thumb::MTime'' (printf_lu m) (take n ds))"
    (is "?L = ?R")
  proof
    assume ?L then show ?R by blast
  next
    assume ?R
    then obtain n where n: "n \<le> length ds" "latest_matches ''Thumb::URI'' uri (take n ds)"
        "latest_matches ''Thumb::MTime'' (printf_lu m) (take n ds)" by blast
    have "0 < n" using n(2) by (cases n) (simp_all add: latest_matches_def)
    then show ?L using n by blast
  qed
  then show ?thesis
    using scan_chunks_list [OF uri ok w, of False False]
    by (simp add: check_png_content_header fold_chunk_flags ds_def)
qed

section \<open>The writer\<close>

lemma take_length_append: "take (length xs) (xs @ ys) = xs"
  by simp

lemma store_at_mid:
  "length bs = length ys \<Longrightarrow> off = length xs \<Longrightarrow> store_at (xs @ ys @ zs) off bs = xs @ bs @ zs"
  by (simp add: store_at_def)

lemma output_buffer:
  fixes val :: string and len_field :: bytes and ck :: bytes
  assumes l: "length len_field = 4" and k: "length ck = 4"
    and tot: "tot = 4 + length tk + 1 + length val + 4"
  defines "output3 \<equiv> store_at (store_at (store_at (replicate tot NUL) 0 len_field)
                        4 (tk @ [NUL])) (4 + length tk + 1) (val @ [NUL])"
  shows "output3 = len_field @ tk @ [NUL] @ val @ [NUL, NUL, NUL, NUL]"
    and "store_at (len_field @ tk @ [NUL] @ val @ [NUL, NUL, NUL, NUL])
           (4 + length tk + 1 + length val) ck
         = len_field @ tk @ [NUL] @ val @ ck"
proof -
  have r: "replicate tot NUL
      = [] @ replicate 4 NUL @ (replicate (length tk + 1) NUL @ replicate (length val + 1) NUL
          @ replicate 3 NUL)"
  proof -
    have "tot = 4 + ((length tk + 1) + ((length val + 1) + 3))"
      unfolding tot by simp
    then show ?thesis by (simp only: replicate_add append_Nil)
  qed
  have o1: "store_at (replicate tot NUL) 0 len_field
      = len_field @ replicate (length tk + 1) NUL @ (replicate (length val + 1) NUL
          @ replicate 3 NUL)"
    unfolding r using l by (subst store_at_mid) simp_all
  have o2: "store_at (store_at (replicate tot NUL) 0 len_field) 4 (tk @ [NUL])
      = len_field @ (tk @ [NUL]) @ (replicate (length val + 1) NUL @ replicate 3 NUL)"
    unfolding o1 using l by (subst store_at_mid) simp_all
  have o2': "len_field @ (tk @ [NUL]) @ (replicate (length val + 1) NUL @ replicate 3 NUL)
      = (len_field @ tk @ [NUL]) @ replicate (length val + 1) NUL @ replicate 3 NUL"
    by simp
  have "output3 = (len_field @ tk @ [NUL]) @ (val @ [NUL]) @ replicate 3 NUL"
    unfolding output3_def o2 o2' using l by (subst store_at_mid) simp_all
  then show "output3 = len_field @ tk @ [NUL] @ val @ [NUL, NUL, NUL, NUL]"
    by (simp add: eval_nat_numeral)
  have s: "len_field @ tk @ [NUL] @ val @ [NUL, NUL, NUL, NUL]
      = (len_field @ tk @ [NUL] @ val) @ [NUL, NUL, NUL, NUL] @ []"
    by simp
  show "store_at (len_field @ tk @ [NUL] @ val @ [NUL, NUL, NUL, NUL])
           (4 + length tk + 1 + length val) ck
         = len_field @ tk @ [NUL] @ val @ ck"
    unfolding s using l k by (subst store_at_mid) simp_all
qed

lemma crc_of_output:
  assumes "length len_field = 4" and "n = int (4 + length body) - 4"
  shows "(ucast (crc 0 (drop 4 (len_field @ body @ rest)) n) :: uint32) = crc32_ref body"
proof -
  have "drop 4 (len_field @ body @ rest) = body @ rest" using assms by simp
  moreover have "nat n = length body" using assms by simp
  ultimately have "crc 0 (drop 4 (len_field @ body @ rest)) n = crc 0 body (int (length body))"
    by (simp add: crc_def)
  then show ?thesis by (simp only: ucast_crc)
qed

lemma uri_output_chunk: "uri_output uri = chunk_bytes (text_chunk ''Thumb::URI'' uri)"
proof -
  let ?L = "htonl_bytes (of_nat (11 + length uri))"
  note buf = output_buffer [where len_field = ?L and tot = "4 + 4 + 11 + length uri + 4"
      and tk = "''tEXtThumb::URI''" and val = uri]
  have total: "4 + 4 + 11 + length uri + 4 = 4 + length ''tEXtThumb::URI'' + 1 + length uri + 4"
    by simp
  have tk: "4 + length ''tEXtThumb::URI'' + 1 = 19" by simp
  have tkv: "4 + length ''tEXtThumb::URI'' + 1 + length uri = 19 + length uri" by simp
  have o3: "store_at (store_at (store_at (replicate (4 + 4 + 11 + length uri + 4) NUL) 0 ?L)
               4 (''tEXtThumb::URI'' @ [NUL])) 19 (uri @ [NUL])
      = ?L @ ''tEXtThumb::URI'' @ [NUL] @ uri @ [NUL, NUL, NUL, NUL]"
    using buf(1) [where ck = "?L", OF length_htonl_bytes length_htonl_bytes total] unfolding tk .
  have o4: "store_at (?L @ ''tEXtThumb::URI'' @ [NUL] @ uri @ [NUL, NUL, NUL, NUL])
               (19 + length uri) ck = ?L @ ''tEXtThumb::URI'' @ [NUL] @ uri @ ck"
    if "length ck = 4" for ck
    using buf(2) [where ck = ck, OF length_htonl_bytes that total] unfolding tkv .
  have c: "(ucast (crc 0 (drop 4 (?L @ ''tEXtThumb::URI'' @ [NUL] @ uri @ [NUL, NUL, NUL, NUL]))
               (int (19 + length uri) - 4)) :: uint32)
      = crc32_ref (''tEXtThumb::URI'' @ [NUL] @ uri)"
    using crc_of_output [of ?L "int (19 + length uri) - 4" "''tEXtThumb::URI'' @ [NUL] @ uri"
            "[NUL, NUL, NUL, NUL]"]
    by (simp add: length_htonl_bytes)
  have "uri_output uri = ?L @ ''tEXtThumb::URI'' @ [NUL] @ uri
           @ htonl_bytes (crc32_ref (''tEXtThumb::URI'' @ [NUL] @ uri))"
    unfolding uri_output_def Let_def o3 c by (rule o4) (rule length_htonl_bytes)
  moreover have "of_nat (11 + length uri) = (of_nat (length (''Thumb::URI'' @ [NUL] @ uri)) :: uint32)"
    by simp
  ultimately show ?thesis
    by (simp add: chunk_bytes_def text_chunk_def del: of_nat_add of_nat_Suc)
qed

lemma mtime_output_chunk: "mtime_output mtime = chunk_bytes (text_chunk ''Thumb::MTime'' mtime)"
proof -
  let ?L = "htonl_bytes (of_nat (13 + length mtime))"
  note buf = output_buffer [where len_field = ?L and tot = "4 + 4 + 13 + length mtime + 4"
      and tk = "''tEXtThumb::MTime''" and val = mtime]
  have total: "4 + 4 + 13 + length mtime + 4 = 4 + length ''tEXtThumb::MTime'' + 1 + length mtime + 4"
    by simp
  have tk: "4 + length ''tEXtThumb::MTime'' + 1 = 21" by simp
  have tkv: "4 + length ''tEXtThumb::MTime'' + 1 + length mtime = 21 + length mtime" by simp
  have o3: "store_at (store_at (store_at (replicate (4 + 4 + 13 + length mtime + 4) NUL) 0 ?L)
               4 (''tEXtThumb::MTime'' @ [NUL])) 21 (mtime @ [NUL])
      = ?L @ ''tEXtThumb::MTime'' @ [NUL] @ mtime @ [NUL, NUL, NUL, NUL]"
    using buf(1) [where ck = "?L", OF length_htonl_bytes length_htonl_bytes total] unfolding tk .
  have o4: "store_at (?L @ ''tEXtThumb::MTime'' @ [NUL] @ mtime @ [NUL, NUL, NUL, NUL])
               (21 + length mtime) ck = ?L @ ''tEXtThumb::MTime'' @ [NUL] @ mtime @ ck"
    if "length ck = 4" for ck
    using buf(2) [where ck = ck, OF length_htonl_bytes that total] unfolding tkv .
  have c: "(ucast (crc 0 (drop 4 (?L @ ''tEXtThumb::MTime'' @ [NUL] @ mtime @ [NUL, NUL, NUL, NUL]))
               (int (21 + length mtime) - 4)) :: uint32)
      = crc32_ref (''tEXtThumb::MTime'' @ [NUL] @ mtime)"
    using crc_of_output [of ?L "int (21 + length mtime) - 4" "''tEXtThumb::MTime'' @ [NUL] @ mtime"
            "[NUL, NUL, NUL, NUL]"]
    by (simp add: length_htonl_bytes)
  have "mtime_output mtime = ?L @ ''tEXtThumb::MTime'' @ [NUL] @ mtime
           @ htonl_bytes (crc32_ref (''tEXtThumb::MTime'' @ [NUL] @ mtime))"
    unfolding mtime_output_def Let_def o3 c by (rule o4) (rule length_htonl_bytes)
  moreover have "of_nat (13 + length mtime)
      = (of_nat (length (''Thumb::MTime'' @ [NUL] @ mtime)) :: uint32)"
    by simp
  ultimately show ?thesis
    by (simp add: chunk_bytes_def text_chunk_def del: of_nat_add of_nat_Suc)
qed

lemma write_fd_ok:
  "count \<le> fd_room f \<Longrightarrow> count \<le> length buf \<Longrightarrow>
   write_fd f buf count
     = (int count, f\<lparr>fd_written := fd_written f @ take count buf, fd_room := fd_room f - count\<rparr>)"
  by (simp add: write_fd_def)

lemma write_fd_all:
  "length buf \<le> fd_room f \<Longrightarrow>
   write_fd f buf (length buf)
     = (int (length buf), f\<lparr>fd_written := fd_written f @ buf, fd_room := fd_room f - length buf\<rparr>)"
  by (simp add: write_fd_ok)

lemma length_spliced:
  "length (spliced uri mtime s)
     = length s + length (uri_output uri) + length (mtime_output mtime)"
  by (simp add: spliced_def uri_output_chunk mtime_output_chunk)

lemma png_writer_rest_ok:
  assumes "length data \<le> fd_room (output_file_fd info)"
  shows "png_writer_rest info data
     = (CAIRO_STATUS_SUCCESS,
        info\<lparr>output_file_fd := (output_file_fd info)
                 \<lparr>fd_written := fd_written (output_file_fd info) @ data,
                  fd_room := fd_room (output_file_fd info) - length data\<rparr>,
              bytes_written := bytes_written info + length data\<rparr>)"
  using assms by (cases "data = []") (simp_all add: png_writer_rest_def write_fd_all)

lemma png_writer_inject:
  assumes bw: "bytes_written info < inject_pos" "inject_pos \<le> bytes_written info + length data"
    and room: "length data + length (uri_output (Thumb_URI info))
                 + length (mtime_output (Thumb_MTime info)) \<le> fd_room (output_file_fd info)"
  shows "png_writer info data
     = (CAIRO_STATUS_SUCCESS,
        info\<lparr>output_file_fd := (output_file_fd info)
                 \<lparr>fd_written := fd_written (output_file_fd info)
                     @ take (inject_pos - bytes_written info) data
                     @ uri_output (Thumb_URI info) @ mtime_output (Thumb_MTime info)
                     @ drop (inject_pos - bytes_written info) data,
                  fd_room := fd_room (output_file_fd info)
                     - (length data + length (uri_output (Thumb_URI info))
                          + length (mtime_output (Thumb_MTime info)))\<rparr>,
              bytes_written := bytes_written info + length data\<rparr>)"
proof -
  let ?U = "uri_output (Thumb_URI info)" and ?M = "mtime_output (Thumb_MTime info)"
  let ?f = "output_file_fd info"
  define n where "n = inject_pos - bytes_written info"
  have n: "n \<le> length data" "0 < n" using bw by (simp_all add: n_def)
  define f1 where "f1 = ?f\<lparr>fd_written := fd_written ?f @ take n data, fd_room := fd_room ?f - n\<rparr>"
  define f2 where "f2 = f1\<lparr>fd_written := fd_written f1 @ ?U, fd_room := fd_room f1 - length ?U\<rparr>"
  define f3 where "f3 = f2\<lparr>fd_written := fd_written f2 @ ?M, fd_room := fd_room f2 - length ?M\<rparr>"
  have w1: "write_fd ?f data n = (int n, f1)"
    unfolding f1_def using n room by (intro write_fd_ok) simp_all
  have w2: "write_fd f1 ?U (length ?U) = (int (length ?U), f2)"
    unfolding f2_def using n room by (intro write_fd_all) (simp add: f1_def)
  have w3: "write_fd f2 ?M (length ?M) = (int (length ?M), f3)"
    unfolding f3_def using n room by (intro write_fd_all) (simp add: f1_def f2_def)
  have i: "int inject_pos - int (bytes_written info) = int n" using bw by (simp add: n_def)
  have "length (drop n data) \<le> fd_room f3"
    using n room by (simp add: f1_def f2_def f3_def)
  then have rest: "png_writer_rest (info\<lparr>output_file_fd := f3, bytes_written := inject_pos\<rparr>)
                 (drop n data)
      = (CAIRO_STATUS_SUCCESS,
         info\<lparr>output_file_fd := f3\<lparr>fd_written := fd_written f3 @ drop n data,
                                     fd_room := fd_room f3 - length (drop n data)\<rparr>,
              bytes_written := inject_pos + length (drop n data)\<rparr>)"
    by (subst png_writer_rest_ok) simp_all
  have "png_writer info data
      = png_writer_rest (info\<lparr>output_file_fd := f3, bytes_written := inject_pos\<rparr>)
          (drop n data)"
    unfolding png_writer_def n_def [symmetric] i
    using bw by (simp add: w1 w2 w3)
  then show ?thesis
    unfolding rest using n bw room by (simp add: f1_def f2_def f3_def n_def)
qed

lemma inject_pos_eq: "inject_pos = 33" "INJECT_AT = 33"
  by (simp_all add: inject_pos_def INJECT_AT_def)

lemma length_forwarded:
  "length (forwarded uri mtime s)
     = (if length s < 33 then length s
        else length s + length (uri_output uri) + length (mtime_output mtime))"
  by (simp add: forwarded_def length_spliced inject_pos_eq)

lemma length_forwarded_mono:
  "length (forwarded uri mtime xs) \<le> length (forwarded uri mtime (xs @ ys))"
  by (simp add: length_forwarded)

lemma png_writer_forwarded:
  assumes bw: "bytes_written info = length d"
    and out: "fd_written (output_file_fd info) = forwarded (Thumb_URI info) (Thumb_MTime info) d"
    and room: "length (forwarded (Thumb_URI info) (Thumb_MTime info) (d @ data))
                 \<le> length (fd_written (output_file_fd info)) + fd_room (output_file_fd info)"
  shows "\<exists>info'. png_writer info data = (CAIRO_STATUS_SUCCESS, info')
           \<and> bytes_written info' = length (d @ data)
           \<and> fd_written (output_file_fd info')
               = forwarded (Thumb_URI info) (Thumb_MTime info) (d @ data)
           \<and> Thumb_URI info' = Thumb_URI info \<and> Thumb_MTime info' = Thumb_MTime info
           \<and> length (fd_written (output_file_fd info')) + fd_room (output_file_fd info')
               = length (fd_written (output_file_fd info)) + fd_room (output_file_fd info)"
proof -
  let ?U = "uri_output (Thumb_URI info)" and ?M = "mtime_output (Thumb_MTime info)"
  consider (inject) "length d < 33" "33 \<le> length d + length data"
    | (before) "length d + length data < 33"
    | (after) "33 \<le> length d"
    by linarith
  then show ?thesis
  proof cases
    case inject
    have r: "length data + length ?U + length ?M \<le> fd_room (output_file_fd info)"
      using room inject out by (simp add: length_forwarded)
    have "forwarded (Thumb_URI info) (Thumb_MTime info) (d @ data)
        = d @ take (33 - length d) data @ ?U @ ?M @ drop (33 - length d) data"
      using inject
      by (simp add: forwarded_def spliced_def inject_pos_eq uri_output_chunk mtime_output_chunk)
    moreover have "forwarded (Thumb_URI info) (Thumb_MTime info) d = d"
      using inject by (simp add: forwarded_def inject_pos_eq)
    ultimately show ?thesis
      using png_writer_inject [of info data] inject bw out r
      by (simp add: inject_pos_eq)
  next
    case before
    have r: "length data \<le> fd_room (output_file_fd info)"
      using room before out by (simp add: length_forwarded)
    have "png_writer info data = png_writer_rest info data"
      using before bw by (simp add: png_writer_def inject_pos_eq)
    moreover have "forwarded (Thumb_URI info) (Thumb_MTime info) (d @ data) = d @ data"
      using before by (simp add: forwarded_def inject_pos_eq)
    moreover have "forwarded (Thumb_URI info) (Thumb_MTime info) d = d"
      using before by (simp add: forwarded_def inject_pos_eq)
    ultimately show ?thesis
      using png_writer_rest_ok [OF r] bw out r by simp
  next
    case after
    have r: "length data \<le> fd_room (output_file_fd info)"
      using room after out by (simp add: length_forwarded)
    have "png_writer info data = png_writer_rest info data"
      using after bw by (simp add: png_writer_def inject_pos_eq)
    moreover have "forwarded (Thumb_URI info) (Thumb_MTime info) (d @ data)
        = forwarded (Thumb_URI info) (Thumb_MTime info) d @ data"
      using after by (simp add: forwarded_def spliced_def inject_pos_eq)
    ultimately show ?thesis
      using png_writer_rest_ok [OF r] bw out r by simp
  qed
qed

lemma write_calls_forwarded:
  assumes "bytes_written info = length d"
    and "fd_written (output_file_fd info) = forwarded (Thumb_URI info) (Thumb_MTime info) d"
    and "length (forwarded (Thumb_URI info) (Thumb_MTime info) (d @ concat calls))
           \<le> length (fd_written (output_file_fd info)) + fd_room (output_file_fd info)"
  shows "\<exists>info'. write_calls calls info = (CAIRO_STATUS_SUCCESS, info')
           \<and> fd_written (output_file_fd info')
               = forwarded (Thumb_URI info) (Thumb_MTime info) (d @ concat calls)"
  using assms
proof (induction calls arbitrary: info d)
  case Nil
  then show ?case by simp
next
  case (Cons data calls)
  let ?fw = "forwarded (Thumb_URI info) (Thumb_MTime info)"
  have "length (?fw (d @ data)) \<le> length (?fw ((d @ data) @ concat calls))"
    by (rule length_forwarded_mono)
  then have "length (?fw (d @ data))
      \<le> length (fd_written (output_file_fd info)) + fd_room (output_file_fd info)"
    using Cons.prems(3) by simp
  from png_writer_forwarded [OF Cons.prems(1,2) this]
  obtain info' where step: "png_writer info data = (CAIRO_STATUS_SUCCESS, info')"
    and inv: "bytes_written info' = length (d @ data)"
      "fd_written (output_file_fd info') = ?fw (d @ data)"
      "Thumb_URI info' = Thumb_URI info" "Thumb_MTime info' = Thumb_MTime info"
      "length (fd_written (output_file_fd info')) + fd_room (output_file_fd info')
         = length (fd_written (output_file_fd info)) + fd_room (output_file_fd info)"
    by blast
  have "\<exists>info''. write_calls calls info' = (CAIRO_STATUS_SUCCESS, info'')
          \<and> fd_written (output_file_fd info'')
              = forwarded (Thumb_URI info') (Thumb_MTime info') ((d @ data) @ concat calls)"
    using inv Cons.prems(3) by (intro Cons.IH) simp_all
  then show ?case using step inv by simp
qed

section \<open>A metadata chunk with a wrong checksum\<close>

lemma flipped_bit: "(w :: uint32) XOR 1 \<noteq> w"
proof
  assume "w XOR 1 = w"
  then have "w XOR (w XOR 1) = w XOR w" by simp
  then show False by (simp add: xor.assoc [symmetric])
qed

lemma printf_lu_5: "printf_lu 5 = ''5''"
  by (simp add: printf_lu_def decimal.simps char_of_eq_iff)

lemma scan_uri_mtime_chunks:
  "scan_chunks ''file:///a'' 5 False False
     (chunk_bytes (text_chunk ''Thumb::URI'' ''file:///a'')
        @ chunk_bytes (text_chunk ''Thumb::MTime'' ''5'')) = Some True"
proof -
  let ?p = "''Thumb::URI'' @ [NUL] @ ''file:///a''"
  let ?q = "''Thumb::MTime'' @ [NUL] @ ''5''"
  have lp: "length ?p \<le> MAX_RW_COUNT" and lq: "length ?q \<le> MAX_RW_COUNT"
    by (simp_all add: MAX_RW_COUNT_def)
  have up: "update_matches ''file:///a'' 5 False False ?p = Some (True, False)"
    by (simp add: update_matches_def)
  have uq: "update_matches ''file:///a'' 5 True False ?q = Some (True, True)"
    by (simp add: update_matches_def printf_lu_5)
  have "scan_chunks ''file:///a'' 5 True False
          (chunk_bytes (Chunk ''tEXt'' ?q (crc32_ref (''tEXt'' @ ?q))) @ []) = Some True"
    using scan_chunks_text [OF lq, of "''file:///a''" 5 True False "crc32_ref (''tEXt'' @ ?q)" "[]"] uq
    by simp
  then have "scan_chunks ''file:///a'' 5 False False
          (chunk_bytes (Chunk ''tEXt'' ?p (crc32_ref (''tEXt'' @ ?p)))
             @ chunk_bytes (Chunk ''tEXt'' ?q (crc32_ref (''tEXt'' @ ?q)))) = Some True"
    using scan_chunks_text [OF lp, of "''file:///a''" 5 False False "crc32_ref (''tEXt'' @ ?p)"
        "chunk_bytes (Chunk ''tEXt'' ?q (crc32_ref (''tEXt'' @ ?q)))"] up
    by simp
  then show ?thesis by (simp add: text_chunk_def)
qed

text \<open>
  C5, as the specification has it, fails on a metadata chunk whose payload is longer
  than one \<open>read\<close> transfers. The chunk below has a payload of \<open>0x7ffff001\<close> bytes and a
  checksum with one bit flipped; a matching URI chunk and a matching mtime chunk
  follow it. The scan does not continue with the next chunk: \<open>read\<close> returns
  \<open>0x7ffff000\<close>, not the length asked for, and the function returns FALSE (line 164).
  Were the chunk absent, the two chunks behind it would make the entry valid.
\<close>

theorem oversized_corrupt_chunk_counterexample:
  "crc32_ref (''tEXt'' @ replicate 2147479553 NUL) XOR 1
       \<noteq> crc32_ref (''tEXt'' @ replicate 2147479553 NUL)
   \<and> scan_chunks ''file:///a'' 5 False False
        (chunk_bytes (Chunk ''tEXt'' (replicate 2147479553 NUL)
                        (crc32_ref (''tEXt'' @ replicate 2147479553 NUL) XOR 1))
           @ chunk_bytes (text_chunk ''Thumb::URI'' ''file:///a'')
           @ chunk_bytes (text_chunk ''Thumb::MTime'' ''5''))
       = Some False
   \<and> scan_chunks ''file:///a'' 5 False False
        (chunk_bytes (text_chunk ''Thumb::URI'' ''file:///a'')
           @ chunk_bytes (text_chunk ''Thumb::MTime'' ''5''))
       = Some True"
proof -
  have big: "MAX_RW_COUNT < length (replicate 2147479553 NUL)"
    by (simp add: MAX_RW_COUNT_def)
  have enc: "length (replicate 2147479553 NUL) < 2 ^ 32"
    by simp
  show ?thesis
    using scan_chunks_text_oversized [OF big enc] flipped_bit scan_uri_mtime_chunks
    by (simp only: simp_thms)
qed

text \<open>
  C5, amended. A \<open>tEXt\<close> chunk whose stored checksum differs from the CRC-32 of its type
  and payload is never treated as a URI or mtime match, whatever its key and value
  are. When its payload is at most \<open>0x7ffff000\<close> bytes long, which is what one \<open>read\<close>
  transfers, the chunk is treated as absent: the scan continues with the next chunk,
  with the flags it had. When its payload is longer, the scan ends at the chunk and
  the entry is reported invalid. (The length field of a chunk has 32 bits.)
\<close>

theorem corrupt_text_chunk_ignored:
  assumes "length payload < 2 ^ 32"
    and "stored \<noteq> crc32_ref (''tEXt'' @ payload)"
  shows "scan_chunks file_uri file_mtime file_uri_match file_mtime_match
           (chunk_bytes (Chunk ''tEXt'' payload stored) @ rest)
         = (if length payload \<le> MAX_RW_COUNT
            then scan_chunks file_uri file_mtime file_uri_match file_mtime_match rest
            else Some False)"
proof (cases "length payload \<le> MAX_RW_COUNT")
  case True
  then show ?thesis
    using scan_chunks_text [OF True] assms(2) by simp
next
  case False
  then have "MAX_RW_COUNT < length payload" by simp
  then show ?thesis
    using scan_chunks_text_oversized [OF _ assms(1)] False by simp
qed

text \<open>
  An instance: the mtime flag is already set and the chunk carries the expected URI, but
  one bit of its checksum is flipped. The scan ends without a match; with the right
  checksum the same chunk completes the match.
\<close>

theorem corrupt_text_chunk_ignored_witness:
  "length (''Thumb::URI'' @ [NUL] @ ''file:///a'') < (2 :: nat) ^ 32
   \<and> crc32_ref (''tEXt'' @ ''Thumb::URI'' @ [NUL] @ ''file:///a'') XOR 1
       \<noteq> crc32_ref (''tEXt'' @ ''Thumb::URI'' @ [NUL] @ ''file:///a'')
   \<and> scan_chunks ''file:///a'' 5 False True
        (chunk_bytes (Chunk ''tEXt'' (''Thumb::URI'' @ [NUL] @ ''file:///a'')
           (crc32_ref (''tEXt'' @ ''Thumb::URI'' @ [NUL] @ ''file:///a'') XOR 1)) @ [])
       = Some False
   \<and> scan_chunks ''file:///a'' 5 False True
        (chunk_bytes (Chunk ''tEXt'' (''Thumb::URI'' @ [NUL] @ ''file:///a'')
           (crc32_ref (''tEXt'' @ ''Thumb::URI'' @ [NUL] @ ''file:///a''))) @ [])
       = Some True"
proof -
  let ?p = "''Thumb::URI'' @ [NUL] @ ''file:///a''"
  have l: "length ?p < (2 :: nat) ^ 32" by simp
  have m: "length ?p \<le> MAX_RW_COUNT" by (simp add: MAX_RW_COUNT_def)
  have f: "crc32_ref (''tEXt'' @ ?p) XOR 1 \<noteq> crc32_ref (''tEXt'' @ ?p)" by (rule flipped_bit)
  have e: "scan_chunks ''file:///a'' 5 False True [] = Some False"
    by (rule scan_chunks_end)
  have "update_matches ''file:///a'' 5 False True ?p = Some (True, True)"
    by (simp add: update_matches_def)
  then have g: "scan_chunks ''file:///a'' 5 False True
        (chunk_bytes (Chunk ''tEXt'' ?p (crc32_ref (''tEXt'' @ ?p))) @ []) = Some True"
    using scan_chunks_text [OF m, of "''file:///a''" 5 False True "crc32_ref (''tEXt'' @ ?p)" "[]"]
    by simp
  show ?thesis
    using corrupt_text_chunk_ignored [OF l f, of "''file:///a''" 5 False True "[]"] l m f e g
    by simp
qed

section \<open>The interceptor and the one-shot splice\<close>


lemma length_chunk_bytes_text:
  "length (chunk_bytes (text_chunk key val)) = 13 + length key + length val"
  by (simp add: chunk_bytes_def text_chunk_def length_htonl_bytes)






section \<open>The match flags are overwritten\<close>

lemma keyed_text_chunk:
  "keyed key (text_chunk key' val) = prefix (key @ [NUL]) (key' @ [NUL] @ val)"
  by (simp add: keyed_def text_chunk_def crc_valid_text_def)

lemma chunk_value_text_chunk: "chunk_value key (text_chunk key val) = val"
  by (simp add: chunk_value_def text_chunk_def)

lemma chunk_ok_text_chunk:
  "chunk_ok (text_chunk key val) = (length key + 1 + length val < 2 ^ 31)"
  by (simp add: chunk_ok_def text_chunk_def)

lemma one_read_text_chunk:
  "one_read (text_chunk key val) = (length key + 1 + length val \<le> MAX_RW_COUNT)"
  by (simp add: one_read_def text_chunk_def)

lemma within_payload_text_chunk:
  "within_payload uri mtime (text_chunk key val)
     = ((if keyed ''Thumb::URI'' (text_chunk key val)
         then \<not> strict_prefix (chunk_value ''Thumb::URI'' (text_chunk key val)) uri else True)
        \<and> (if keyed ''Thumb::MTime'' (text_chunk key val)
            then \<not> strict_prefix (chunk_value ''Thumb::MTime'' (text_chunk key val)) mtime
            else True))"
  by (simp add: within_payload_def text_chunk_def crc_valid_text_def)


text \<open>
  C10. On a file made of the header and a sequence of chunks, \<open>check_png_attributes\<close>
  returns true exactly when, after some number of the chunks that the forward scan
  reaches, the latest checksum-valid \<open>Thumb::URI\<close> chunk and the latest checksum-valid
  \<open>Thumb::MTime\<close> chunk both match. (The scan reaches the chunks before the first
  metadata chunk that one \<open>read\<close> does not transfer; the comparisons on the chunks it
  reaches are assumed to stay inside the payloads.) And there is a file with a
  matching URI chunk and a matching mtime chunk on which it returns false: a later URI
  chunk that does not match has cleared the flag before the mtime chunk comes.
\<close>

theorem match_flags_overwritten:
  assumes "NUL \<notin> set file_uri"
    and "\<forall>c\<in>set cs. chunk_ok c"
    and "\<forall>c\<in>set (scanned cs). within_payload file_uri (printf_lu file_mtime) c"
  shows "check_png_content (expected_header @ concat (map chunk_bytes cs)) file_uri file_mtime
           = Some (\<exists>n\<le>length (scanned cs).
                     latest_matches ''Thumb::URI'' file_uri (take n (scanned cs))
                     \<and> latest_matches ''Thumb::MTime'' (printf_lu file_mtime)
                           (take n (scanned cs)))
     \<and> (\<exists>cs' uri' mtime'.
           (\<exists>c\<in>set cs'. keyed ''Thumb::URI'' c \<and> prefix uri' (chunk_value ''Thumb::URI'' c))
           \<and> (\<exists>c\<in>set cs'. keyed ''Thumb::MTime'' c
                 \<and> prefix (printf_lu mtime') (chunk_value ''Thumb::MTime'' c))
           \<and> check_png_content (expected_header @ concat (map chunk_bytes cs')) uri' mtime'
               = Some False)"
proof
  show "check_png_content (expected_header @ concat (map chunk_bytes cs)) file_uri file_mtime
           = Some (\<exists>n\<le>length (scanned cs).
                     latest_matches ''Thumb::URI'' file_uri (take n (scanned cs))
                     \<and> latest_matches ''Thumb::MTime'' (printf_lu file_mtime)
                           (take n (scanned cs)))"
    using assms by (rule check_png_content_chunks)
next
  let ?u = "''file:///a''"
  let ?c1 = "text_chunk ''Thumb::URI'' ''file:///a''"
  let ?c2 = "text_chunk ''Thumb::URI'' ''file:///b''"
  let ?c3 = "text_chunk ''Thumb::MTime'' ''5''"
  let ?cs = "[?c1, ?c2, ?c3]"
  have u: "NUL \<notin> set ?u" by simp
  have ok: "chunk_ok ?c1" "chunk_ok ?c2" "chunk_ok ?c3"
    by (simp_all add: chunk_ok_text_chunk)
  have one: "one_read ?c1" "one_read ?c2" "one_read ?c3"
    by (simp_all add: one_read_text_chunk MAX_RW_COUNT_def)
  have w: "within_payload ?u (printf_lu 5) ?c1" "within_payload ?u (printf_lu 5) ?c2"
      "within_payload ?u (printf_lu 5) ?c3"
    by (simp_all add: within_payload_text_chunk keyed_text_chunk chunk_value_text_chunk printf_lu_5)
  have f1: "chunk_flags ?u (printf_lu 5) ?c1 (False, False) = (True, False)"
    by (simp add: chunk_flags_def keyed_text_chunk chunk_value_text_chunk)
  have f2: "chunk_flags ?u (printf_lu 5) ?c2 (True, False) = (False, False)"
    by (simp add: chunk_flags_def keyed_text_chunk chunk_value_text_chunk)
  have f3: "chunk_flags ?u (printf_lu 5) ?c3 (False, False) = (False, True)"
    by (simp add: chunk_flags_def keyed_text_chunk chunk_value_text_chunk printf_lu_5)
  have "scan_chunks ?u 5 False False (chunk_bytes ?c1 @ chunk_bytes ?c2 @ chunk_bytes ?c3 @ [])
      = Some False"
    by (simp only: scan_chunks_chunk [OF u ok(1) one(1) w(1)]
          scan_chunks_chunk [OF u ok(2) one(2) w(2)]
          scan_chunks_chunk [OF u ok(3) one(3) w(3)] f1 f2 f3 fst_conv snd_conv simp_thms if_False
          scan_chunks_end)
  then have r: "check_png_content (expected_header @ concat (map chunk_bytes ?cs)) ?u 5 = Some False"
    by (simp add: check_png_content_header)
  have a: "\<exists>c\<in>set ?cs. keyed ''Thumb::URI'' c \<and> prefix ?u (chunk_value ''Thumb::URI'' c)"
    by (simp add: keyed_text_chunk chunk_value_text_chunk)
  have b: "\<exists>c\<in>set ?cs. keyed ''Thumb::MTime'' c
      \<and> prefix (printf_lu 5) (chunk_value ''Thumb::MTime'' c)"
    by (simp add: keyed_text_chunk chunk_value_text_chunk printf_lu_5)
  show "\<exists>cs' uri' mtime'.
           (\<exists>c\<in>set cs'. keyed ''Thumb::URI'' c \<and> prefix uri' (chunk_value ''Thumb::URI'' c))
           \<and> (\<exists>c\<in>set cs'. keyed ''Thumb::MTime'' c
                 \<and> prefix (printf_lu mtime') (chunk_value ''Thumb::MTime'' c))
           \<and> check_png_content (expected_header @ concat (map chunk_bytes cs')) uri' mtime'
               = Some False"
    using a b r by blast
qed

theorem match_flags_overwritten_witness:
  "NUL \<notin> set ''file:///a''
   \<and> chunk_ok (text_chunk ''Thumb::URI'' ''file:///a'')
   \<and> chunk_ok (text_chunk ''Thumb::MTime'' ''5'')
   \<and> scanned [text_chunk ''Thumb::URI'' ''file:///a'', text_chunk ''Thumb::MTime'' ''5'']
       = [text_chunk ''Thumb::URI'' ''file:///a'', text_chunk ''Thumb::MTime'' ''5'']
   \<and> within_payload ''file:///a'' (printf_lu 5) (text_chunk ''Thumb::URI'' ''file:///a'')
   \<and> within_payload ''file:///a'' (printf_lu 5) (text_chunk ''Thumb::MTime'' ''5'')
   \<and> check_png_content
         (expected_header
            @ concat (map chunk_bytes [text_chunk ''Thumb::URI'' ''file:///a'',
                                        text_chunk ''Thumb::MTime'' ''5'']))
         ''file:///a'' 5
       = Some True"
proof -
  let ?u = "''file:///a''"
  let ?c1 = "text_chunk ''Thumb::URI'' ''file:///a''"
  let ?c3 = "text_chunk ''Thumb::MTime'' ''5''"
  have u: "NUL \<notin> set ?u" by simp
  have ok: "chunk_ok ?c1" "chunk_ok ?c3"
    by (simp_all add: chunk_ok_text_chunk)
  have sc: "scanned [?c1, ?c3] = [?c1, ?c3]"
    by (simp add: scanned_Cons one_read_text_chunk MAX_RW_COUNT_def scanned_def)
  have w: "within_payload ?u (printf_lu 5) ?c1" "within_payload ?u (printf_lu 5) ?c3"
    by (simp_all add: within_payload_text_chunk keyed_text_chunk chunk_value_text_chunk printf_lu_5)
  have all: "\<forall>c\<in>set [?c1, ?c3]. chunk_ok c"
    using ok by simp
  have allw: "\<forall>c\<in>set (scanned [?c1, ?c3]). within_payload ?u (printf_lu 5) c"
    using w by (simp add: sc)
  have "latest_matches ''Thumb::URI'' ?u (take 2 [?c1, ?c3])
      \<and> latest_matches ''Thumb::MTime'' (printf_lu 5) (take 2 [?c1, ?c3])"
    by (simp add: latest_matches_def keyed_text_chunk chunk_value_text_chunk printf_lu_5)
  then have ex: "\<exists>n\<le>length [?c1, ?c3]. latest_matches ''Thumb::URI'' ?u (take n [?c1, ?c3])
      \<and> latest_matches ''Thumb::MTime'' (printf_lu 5) (take n [?c1, ?c3])"
    by (intro exI [of _ 2]) simp
  show ?thesis
    using match_flags_overwritten [OF u all allw, THEN conjunct1] ex u ok w sc
    by (simp only: simp_thms)
qed

section \<open>A stored entry under the scanner\<close>

lemma length_decimal_le: "n < 10 ^ k \<Longrightarrow> 0 < k \<Longrightarrow> length (decimal n) \<le> k"
proof (induction k arbitrary: n)
  case 0
  then show ?case by simp
next
  case (Suc k)
  show ?case
  proof (cases "n < 10")
    case True
    then show ?thesis by (subst decimal.simps) simp
  next
    case False
    then have k: "0 < k" using Suc.prems by (cases k) simp_all
    have "n div 10 < 10 ^ k" using Suc.prems by (simp add: less_mult_imp_div_less mult.commute)
    then have "length (decimal (n div 10)) \<le> k" using k by (rule Suc.IH)
    then show ?thesis using False by (subst decimal.simps) simp
  qed
qed

lemma length_printf_lu: "length (printf_lu v) \<le> 20"
proof -
  have "unat v < 2 ^ 64" using unsigned_less [of v] by simp
  also have "(2 :: nat) ^ 64 < 10 ^ 20" by simp
  finally show ?thesis
    unfolding printf_lu_def by (intro length_decimal_le) simp_all
qed

lemma spliced_png:
  assumes "length ty = 4" and "length ihdr = 13"
  shows "spliced uri mtime (expected_header @ chunk_bytes (Chunk ty ihdr k) @ tail)
     = expected_header
       @ chunk_bytes (Chunk ty ihdr k)
       @ chunk_bytes (text_chunk ''Thumb::URI'' uri)
       @ chunk_bytes (text_chunk ''Thumb::MTime'' mtime)
       @ tail"
  using assms
  by (simp add: spliced_def inject_pos_eq expected_header_def chunk_bytes_def length_htonl_bytes)

text \<open>
  The scan of a spliced stream, past the first chunk and the two injected ones.
\<close>

lemma scan_injected:
  assumes ty: "length ty = 4" "ty \<noteq> ''tEXt''" and ihdr: "length ihdr = 13"
    and uri': "NUL \<notin> set uri'"
    and len: "length uri < 2 ^ 30"
    and wu: "\<not> strict_prefix uri uri'"
    and wm: "\<not> strict_prefix (printf_lu m) (printf_lu m')"
  shows "scan_chunks uri' m' False False
           (chunk_bytes (Chunk ty ihdr k)
            @ chunk_bytes (text_chunk ''Thumb::URI'' uri)
            @ chunk_bytes (text_chunk ''Thumb::MTime'' (printf_lu m))
            @ tail)
     = (if prefix uri' uri \<and> prefix (printf_lu m') (printf_lu m) then Some True
        else scan_chunks uri' m' (prefix uri' uri) (prefix (printf_lu m') (printf_lu m)) tail)"
proof -
  let ?U = "text_chunk ''Thumb::URI'' uri"
  let ?M = "text_chunk ''Thumb::MTime'' (printf_lu m)"
  have s1: "scan_chunks uri' m' False False (chunk_bytes (Chunk ty ihdr k) @ rest)
      = scan_chunks uri' m' False False rest" for rest
    using ty ihdr by (intro scan_chunks_skip) simp_all
  have okU: "chunk_ok ?U" using len by (simp add: chunk_ok_text_chunk)
  have oneU: "one_read ?U" using len by (simp add: one_read_text_chunk MAX_RW_COUNT_def)
  have wU: "within_payload uri' (printf_lu m') ?U"
    using wu by (simp add: within_payload_text_chunk keyed_text_chunk chunk_value_text_chunk)
  have fU: "chunk_flags uri' (printf_lu m') ?U (False, False) = (prefix uri' uri, False)"
    by (simp add: chunk_flags_def keyed_text_chunk chunk_value_text_chunk)
  have "length (printf_lu m) \<le> 20" by (rule length_printf_lu)
  then have okM: "chunk_ok ?M" and oneM: "one_read ?M"
    by (simp_all add: chunk_ok_text_chunk one_read_text_chunk MAX_RW_COUNT_def)
  have wM: "within_payload uri' (printf_lu m') ?M"
    using wm by (simp add: within_payload_text_chunk keyed_text_chunk chunk_value_text_chunk)
  have fM: "chunk_flags uri' (printf_lu m') ?M (a, False)
      = (a, prefix (printf_lu m') (printf_lu m))" for a
    by (simp add: chunk_flags_def keyed_text_chunk chunk_value_text_chunk)
  have vM: "crc_valid_text ?M" by (simp add: crc_valid_text_def text_chunk_def)
  show ?thesis
    unfolding s1
    by (simp add: scan_chunks_chunk [OF uri' okU oneU wU] scan_chunks_chunk [OF uri' okM oneM wM]
          fU fM vM)
qed

lemma scan_other_chunks:
  assumes uri: "NUL \<notin> set uri'"
    and cs: "\<forall>c\<in>set cs. chunk_ok c \<and> chunk_type c \<noteq> ''tEXt''"
    and ab: "\<not> (a \<and> b)"
  shows "scan_chunks uri' m' a b (concat (map chunk_bytes cs)) = Some False"
proof -
  have other: "\<forall>c\<in>set cs. \<not> crc_valid_text c"
    using cs by (simp add: crc_valid_text_def)
  have ok: "\<forall>c\<in>set cs. chunk_ok c"
    using cs by simp
  have "\<forall>c\<in>set cs. one_read c"
    using cs by (simp add: one_read_def)
  then have sc: "scanned cs = cs"
    by (rule scanned_all)
  have w: "\<forall>c\<in>set (scanned cs). within_payload uri' (printf_lu m') c"
    using other by (simp add: within_payload_def sc)
  have same: "fold (chunk_flags uri' (printf_lu m')) xs (a, b) = (a, b)"
    if "set xs \<subseteq> set cs" for xs
    using that other by (induction xs) (auto simp add: chunk_flags_other)
  have "fold (chunk_flags uri' (printf_lu m')) (take n cs) (a, b) = (a, b)" for n
    by (rule same) (rule set_take_subset)
  then show ?thesis
    using scan_chunks_list [OF uri ok w ab] ab by (simp add: sc)
qed

section \<open>Storing\<close>

lemma cairo_write_spliced:
  assumes "png_status s = CAIRO_STATUS_SUCCESS"
    and "33 \<le> length (concat (png_calls s))"
    and "length (spliced uri mtime (concat (png_calls s))) \<le> room"
  shows "\<exists>info. cairo_surface_write_to_png_stream s
                  \<lparr>output_file_fd = \<lparr>fd_written = [], fd_room = room\<rparr>, bytes_written = 0,
                   Thumb_URI = uri, Thumb_MTime = mtime\<rparr> = (CAIRO_STATUS_SUCCESS, info)
           \<and> fd_written (output_file_fd info) = spliced uri mtime (concat (png_calls s))"
proof -
  let ?info = "\<lparr>output_file_fd = \<lparr>fd_written = [], fd_room = room\<rparr>, bytes_written = 0,
                   Thumb_URI = uri, Thumb_MTime = mtime\<rparr>"
  have fw: "forwarded uri mtime (concat (png_calls s)) = spliced uri mtime (concat (png_calls s))"
    using assms(2) by (simp add: forwarded_def inject_pos_eq)
  have "\<exists>info. write_calls (png_calls s) ?info = (CAIRO_STATUS_SUCCESS, info)
      \<and> fd_written (output_file_fd info) = spliced uri mtime (concat (png_calls s))"
    using write_calls_forwarded [of ?info "[]" "png_calls s"] assms(3) fw
    by (simp add: forwarded_def inject_pos_eq)
  then show ?thesis
    using assms(1) by (auto simp add: cairo_surface_write_to_png_stream_def)
qed

lemma store_at_level_written:
  assumes p: "get_local_filename e file = Some p"
    and mt: "mt = (case stat_mtime e p of Some t \<Rightarrow> t | None \<Rightarrow> uninitialised_mtime e)"
    and path: "path = thumbnail_candidate (get_thumbnail_cache_directory e) lvl
                        (g_compute_checksum_md5 e (''file://'' @ p))"
    and fd: "0 < open_creat_wronly e path"
    and st: "png_status (thumbnail file) = CAIRO_STATUS_SUCCESS"
    and len: "33 \<le> length (concat (png_calls (thumbnail file)))"
    and room: "length (spliced (''file://'' @ p) (printf_lu mt) (concat (png_calls (thumbnail file))))
                 \<le> write_room e"
  shows "store_at_level e file lvl
     = (True, (files e)(path \<mapsto> overwritten (files e path)
                 (spliced (''file://'' @ p) (printf_lu mt) (concat (png_calls (thumbnail file))))))"
proof -
  from cairo_write_spliced [OF st len room]
  obtain info where w: "cairo_surface_write_to_png_stream (thumbnail file)
        \<lparr>output_file_fd = \<lparr>fd_written = [], fd_room = write_room e\<rparr>, bytes_written = 0,
         Thumb_URI = ''file://'' @ p, Thumb_MTime = printf_lu mt\<rparr> = (CAIRO_STATUS_SUCCESS, info)"
    and out: "fd_written (output_file_fd info)
        = spliced (''file://'' @ p) (printf_lu mt) (concat (png_calls (thumbnail file)))"
    by blast
  show ?thesis
    using p fd w out unfolding store_at_level_def mt path
    by (simp add: Let_def)
qed

lemma store_at_level_open_fails:
  assumes "get_local_filename e file = Some p"
    and "open_creat_wronly e (thumbnail_candidate (get_thumbnail_cache_directory e) lvl
           (g_compute_checksum_md5 e (''file://'' @ p))) < 0"
  shows "store_at_level e file lvl = (True, files e)"
  using assms by (simp add: store_at_level_def Let_def)

lemma store_at_level_write_fails:
  assumes "get_local_filename e file = Some p"
    and "mt = (case stat_mtime e p of Some t \<Rightarrow> t | None \<Rightarrow> uninitialised_mtime e)"
    and "path = thumbnail_candidate (get_thumbnail_cache_directory e) lvl
                        (g_compute_checksum_md5 e (''file://'' @ p))"
    and "0 < open_creat_wronly e path"
    and "fst (cairo_surface_write_to_png_stream (thumbnail file)
        \<lparr>output_file_fd = \<lparr>fd_written = [], fd_room = write_room e\<rparr>, bytes_written = 0,
         Thumb_URI = ''file://'' @ p, Thumb_MTime = printf_lu mt\<rparr>) \<noteq> CAIRO_STATUS_SUCCESS"
  shows "store_at_level e file lvl = (False, (files e)(path := None))"
  using assms by (auto simp add: store_at_level_def Let_def split: prod.splits)

lemma store_level:
  "store_thumbnail_to_cache e file
     = (if surface_width (thumbnail file) = 256 \<or> surface_height (thumbnail file) = 256
        then store_at_level e file 0
        else if surface_width (thumbnail file) = 128 \<or> surface_height (thumbnail file) = 128
        then store_at_level e file 1
        else (False, files e))"
  by (simp add: store_thumbnail_to_cache_def Let_def)

text \<open>What the scanner reports on a freshly stored entry, and on any stored entry for a match.\<close>

lemma stored_entry_scan:
  assumes size: "surface_width (thumbnail file) = 256 \<or> surface_height (thumbnail file) = 256
                 \<or> surface_width (thumbnail file) = 128 \<or> surface_height (thumbnail file) = 128"
    and lvl: "lvl = (if surface_width (thumbnail file) = 256 \<or> surface_height (thumbnail file) = 256
                     then 0 else 1)"
    and p: "get_local_filename e file = Some p"
    and m: "stat_mtime e p = Some m"
    and uri: "uri = ''file://'' @ p" "length uri < 2 ^ 30"
    and path: "path = thumbnail_candidate (get_thumbnail_cache_directory e) lvl
                        (g_compute_checksum_md5 e uri)"
    and fd: "0 < open_creat_wronly e path"
    and enc: "png_status (thumbnail file) = CAIRO_STATUS_SUCCESS"
      "concat (png_calls (thumbnail file))
         = expected_header @ concat (map chunk_bytes (Chunk ''IHDR'' ihdr k # cs))"
      "length ihdr = 13"
      "\<forall>c\<in>set cs. chunk_ok c \<and> chunk_type c \<noteq> ''tEXt''"
    and room: "length (concat (png_calls (thumbnail file))) + length uri + 100 \<le> write_room e"
    and uri': "NUL \<notin> set uri'" "\<not> strict_prefix uri uri'"
    and m': "\<not> strict_prefix (printf_lu m) (printf_lu m')"
  shows "fst (store_thumbnail_to_cache e file) = True"
    and "prefix uri' uri \<Longrightarrow> prefix (printf_lu m') (printf_lu m) \<Longrightarrow>
         check_png_attributes (e\<lparr>files := snd (store_thumbnail_to_cache e file)\<rparr>) path uri' m'
           = Some True"
    and "files e path = None \<Longrightarrow>
         check_png_attributes (e\<lparr>files := snd (store_thumbnail_to_cache e file)\<rparr>) path uri' m'
           = Some (prefix uri' uri \<and> prefix (printf_lu m') (printf_lu m))"
proof -
  let ?stream = "concat (png_calls (thumbnail file))"
  let ?tail = "concat (map chunk_bytes cs)"
  let ?U = "chunk_bytes (text_chunk ''Thumb::URI'' uri)"
  let ?M = "chunk_bytes (text_chunk ''Thumb::MTime'' (printf_lu m))"
  have stream: "?stream = expected_header @ chunk_bytes (Chunk ''IHDR'' ihdr k) @ ?tail"
    using enc(2) by simp
  have sp: "spliced uri (printf_lu m) ?stream
      = expected_header @ chunk_bytes (Chunk ''IHDR'' ihdr k) @ ?U @ ?M @ ?tail"
    unfolding stream using enc(3) by (intro spliced_png) simp_all
  have len: "33 \<le> length ?stream"
    unfolding stream using enc(3)
    by (simp add: expected_header_def chunk_bytes_def length_htonl_bytes)
  have "length (printf_lu m) \<le> 20" by (rule length_printf_lu)
  then have r: "length (spliced uri (printf_lu m) ?stream) \<le> write_room e"
    using room by (simp add: spliced_def length_chunk_bytes_text)
  have mt: "m = (case stat_mtime e p of Some t \<Rightarrow> t | None \<Rightarrow> uninitialised_mtime e)"
    using m by simp
  have st: "store_thumbnail_to_cache e file
      = (True, (files e)(path \<mapsto> overwritten (files e path) (spliced uri (printf_lu m) ?stream)))"
    using size lvl
      store_at_level_written [OF p mt path [unfolded uri(1)] fd enc(1) len r [unfolded uri(1)]]
    by (auto simp add: store_level uri(1))
  show "fst (store_thumbnail_to_cache e file) = True"
    by (simp add: st)
  have scan: "scan_chunks uri' m' False False
                (chunk_bytes (Chunk ''IHDR'' ihdr k) @ ?U @ ?M @ rest)
      = (if prefix uri' uri \<and> prefix (printf_lu m') (printf_lu m) then Some True
         else scan_chunks uri' m' (prefix uri' uri) (prefix (printf_lu m') (printf_lu m)) rest)"
    for rest
    using enc(3) uri' uri(2) m' by (intro scan_injected) simp_all
  have content: "check_png_attributes (e\<lparr>files := snd (store_thumbnail_to_cache e file)\<rparr>) path uri' m'
      = scan_chunks uri' m' False False
          (chunk_bytes (Chunk ''IHDR'' ihdr k) @ ?U @ ?M @ ?tail
             @ (case files e path of None \<Rightarrow> []
                | Some old \<Rightarrow> drop (length (spliced uri (printf_lu m) ?stream)) old))"
    unfolding st sp
    by (simp add: check_png_attributes_def overwritten_def sp check_png_content_header
          check_png_content_header [of "xs @ ys" for xs ys, simplified] split: option.split)
  show "check_png_attributes (e\<lparr>files := snd (store_thumbnail_to_cache e file)\<rparr>) path uri' m'
           = Some True"
    if "prefix uri' uri" "prefix (printf_lu m') (printf_lu m)"
    unfolding content using that scan [of "?tail @ _"] by simp
  show "check_png_attributes (e\<lparr>files := snd (store_thumbnail_to_cache e file)\<rparr>) path uri' m'
           = Some (prefix uri' uri \<and> prefix (printf_lu m') (printf_lu m))"
    if "files e path = None"
  proof (cases "prefix uri' uri \<and> prefix (printf_lu m') (printf_lu m)")
    case True
    then show ?thesis unfolding content using scan [of "?tail @ _"] by simp
  next
    case False
    then have "scan_chunks uri' m' (prefix uri' uri) (prefix (printf_lu m') (printf_lu m)) ?tail
        = Some False"
      using uri'(1) enc(4) by (intro scan_other_chunks) simp_all
    then show ?thesis
      unfolding content using that False scan [of ?tail] by simp
  qed
qed

section \<open>The example, evaluated\<close>

lemma pic_local: "get_local_filename home_env pic_file = Some ''/home/u/pic.jpg''"
  by (simp add: get_local_filename_def home_env_def pic_file_def after_last_separator_def)

lemma home_cache_directory: "get_thumbnail_cache_directory home_env = ''/home/u/.cache/thumbnails''"
  by (simp add: get_thumbnail_cache_directory_def home_env_def)

lemma pic_candidate:
  "thumbnail_candidate (get_thumbnail_cache_directory home_env) 0
     (g_compute_checksum_md5 home_env ''file:///home/u/pic.jpg'') = pic_entry"
  by (simp add: home_cache_directory thumbnail_candidate_def thumbnail_levels_def pic_entry_def)
     (simp add: home_env_def)

lemma printf_lu_1700000000: "printf_lu 1700000000 = ''1700000000''"
  by (simp add: printf_lu_def decimal.simps char_of_eq_iff)

lemma printf_lu_17: "printf_lu 17 = ''17''"
  by (simp add: printf_lu_def decimal.simps char_of_eq_iff)

lemma printf_lu_1700000500: "printf_lu 1700000500 = ''1700000500''"
  by (simp add: printf_lu_def decimal.simps char_of_eq_iff)

lemma pic_stream:
  "concat (png_calls pic_surface) = expected_header @ concat (map chunk_bytes pic_chunks)"
  by (simp add: pic_surface_def)

lemma length_pic_stream: "length (concat (png_calls pic_surface)) = 249"
  by (simp add: pic_stream pic_chunks_def chunk_bytes_def length_htonl_bytes expected_header_def)

lemma pic_chunks_ok:
  "pic_chunks = Chunk ''IHDR'' (chunk_payload (hd pic_chunks)) (chunk_crc (hd pic_chunks))
                  # tl pic_chunks"
  "length (chunk_payload (hd pic_chunks)) = 13"
  "\<forall>c\<in>set (tl pic_chunks). chunk_ok c \<and> chunk_type c \<noteq> ''tEXt''"
  by (simp_all add: pic_chunks_def chunk_ok_def)

section \<open>Round trip of a stored entry\<close>

text \<open>
  The round trip. Let \<open>store_thumbnail_to_cache\<close> store a thumbnail for a source with the
  URI \<open>uri\<close> and the modification time \<open>m\<close>, the encoder delivering a PNG stream (file
  header, \<open>IHDR\<close>, further chunks other than \<open>tEXt\<close>) and the file taking the bytes. Then
  it returns true, and \<open>check_png_attributes\<close> reports the entry valid for \<open>uri\<close> and \<open>m\<close>.
\<close>

lemma stored_entry_round_trip:
  assumes "surface_width (thumbnail file) = 256 \<or> surface_height (thumbnail file) = 256
           \<or> surface_width (thumbnail file) = 128 \<or> surface_height (thumbnail file) = 128"
    and "lvl = (if surface_width (thumbnail file) = 256 \<or> surface_height (thumbnail file) = 256
                then 0 else 1)"
    and "get_local_filename e file = Some p"
    and "stat_mtime e p = Some m"
    and "uri = ''file://'' @ p" and "NUL \<notin> set uri" and "length uri < 2 ^ 30"
    and "path = thumbnail_candidate (get_thumbnail_cache_directory e) lvl
                  (g_compute_checksum_md5 e uri)"
    and "0 < open_creat_wronly e path"
    and "png_status (thumbnail file) = CAIRO_STATUS_SUCCESS"
    and "concat (png_calls (thumbnail file))
           = expected_header @ concat (map chunk_bytes (Chunk ''IHDR'' ihdr k # cs))"
    and "length ihdr = 13"
    and "\<forall>c\<in>set cs. chunk_ok c \<and> chunk_type c \<noteq> ''tEXt''"
    and "length (concat (png_calls (thumbnail file))) + length uri + 100 \<le> write_room e"
  shows "fst (store_thumbnail_to_cache e file) = True
     \<and> check_png_attributes (e\<lparr>files := snd (store_thumbnail_to_cache e file)\<rparr>) path uri m
         = Some True"
proof -
  note scan = stored_entry_scan [OF assms(1-5) assms(7-14)]
  have "\<not> strict_prefix uri uri" and "\<not> strict_prefix (printf_lu m) (printf_lu m)"
    by simp_all
  with assms(6) have same: "check_png_attributes
        (e\<lparr>files := snd (store_thumbnail_to_cache e file)\<rparr>) path uri m = Some True"
    by (intro scan(2)) simp_all
  have stored: "fst (store_thumbnail_to_cache e file) = True"
    using assms(6) by (intro scan(1) [of uri m]) simp_all
  show ?thesis
    using stored same by blast
qed

text \<open>
  C1. An entry that \<open>store_thumbnail_to_cache\<close> has written is reported valid by
  \<open>check_png_attributes\<close> for the URI and the mtime it was stored for, but not invalid
  for every other URI and every other mtime. The thumbnail of \<open>/home/u/pic.jpg\<close> with the
  mtime 1700000000 is stored, and the entry is valid for that URI and mtime; it is
  also reported valid for the mtime 17, and for the URI \<open>file:///home/u/pic.jp\<close>. The
  comparisons of lines 179 and 183 are \<open>strncmp\<close> over the length of the expected
  string, and nothing checks that the stored value ends where the expected one does;
  an mtime or URI that differs from the stored one inside the expected string is
  rejected.
\<close>

theorem stored_entry_valid_for_other_mtime:
  "fst (store_thumbnail_to_cache home_env pic_file) = True
   \<and> check_png_attributes (home_env\<lparr>files := snd (store_thumbnail_to_cache home_env pic_file)\<rparr>)
       pic_entry pic_uri 1700000000 = Some True
   \<and> check_png_attributes (home_env\<lparr>files := snd (store_thumbnail_to_cache home_env pic_file)\<rparr>)
       pic_entry pic_uri 17 = Some True
   \<and> (17 :: ulong) \<noteq> 1700000000
   \<and> check_png_attributes (home_env\<lparr>files := snd (store_thumbnail_to_cache home_env pic_file)\<rparr>)
       pic_entry ''file:///home/u/pic.jp'' 1700000000 = Some True
   \<and> ''file:///home/u/pic.jp'' \<noteq> pic_uri
   \<and> check_png_attributes (home_env\<lparr>files := snd (store_thumbnail_to_cache home_env pic_file)\<rparr>)
       pic_entry pic_uri 1700000500 = Some False
   \<and> check_png_attributes (home_env\<lparr>files := snd (store_thumbnail_to_cache home_env pic_file)\<rparr>)
       pic_entry ''file:///home/u/other.jpg'' 1700000000 = Some False"
proof -
  have size: "surface_width (thumbnail pic_file) = 256 \<or> surface_height (thumbnail pic_file) = 256
      \<or> surface_width (thumbnail pic_file) = 128 \<or> surface_height (thumbnail pic_file) = 128"
    by (simp add: pic_file_def pic_surface_def)
  have lvl: "0 = (if surface_width (thumbnail pic_file) = 256
                     \<or> surface_height (thumbnail pic_file) = 256 then 0 else (1 :: nat))"
    by (simp add: pic_file_def pic_surface_def)
  have m: "stat_mtime home_env ''/home/u/pic.jpg'' = Some 1700000000"
    by (simp add: home_env_def)
  have uri: "pic_uri = ''file://'' @ ''/home/u/pic.jpg''" "length pic_uri < 2 ^ 30"
    by (simp_all add: pic_uri_def)
  have path: "pic_entry = thumbnail_candidate (get_thumbnail_cache_directory home_env) 0
                    (g_compute_checksum_md5 home_env pic_uri)"
    by (simp add: pic_candidate pic_uri_def)
  have fd: "0 < open_creat_wronly home_env pic_entry"
    by (simp add: home_env_def)
  have st: "png_status (thumbnail pic_file) = CAIRO_STATUS_SUCCESS"
    by (simp add: pic_file_def pic_surface_def)
  have stream': "concat (png_calls (thumbnail pic_file))
      = expected_header @ concat (map chunk_bytes
          (Chunk ''IHDR'' (chunk_payload (hd pic_chunks)) (chunk_crc (hd pic_chunks))
             # tl pic_chunks))"
    using pic_chunks_ok(1) by (simp add: pic_file_def pic_stream)
  have room: "length (concat (png_calls (thumbnail pic_file))) + length pic_uri + 100
      \<le> write_room home_env"
    by (simp add: pic_file_def length_pic_stream pic_uri_def) (simp add: home_env_def)
  have fresh: "files home_env pic_entry = None"
    by (simp add: home_env_def)
  note scan = stored_entry_scan [OF size lvl pic_local m uri path fd st stream'
      pic_chunks_ok(2,3) room]
  have s: "fst (store_thumbnail_to_cache home_env pic_file) = True"
    by (rule scan(1) [of pic_uri 1700000000]) (simp_all add: pic_uri_def)
  have r: "check_png_attributes (home_env\<lparr>files := snd (store_thumbnail_to_cache home_env pic_file)\<rparr>)
     pic_entry pic_uri 1700000000 = Some True"
    by (rule scan(2)) (simp_all add: pic_uri_def)
  have a: "check_png_attributes (home_env\<lparr>files := snd (store_thumbnail_to_cache home_env pic_file)\<rparr>)
     pic_entry pic_uri 17 = Some True"
    by (rule scan(2))
       (simp_all add: pic_uri_def printf_lu_17 printf_lu_1700000000 strict_prefix_def)
  have b: "check_png_attributes (home_env\<lparr>files := snd (store_thumbnail_to_cache home_env pic_file)\<rparr>)
       pic_entry ''file:///home/u/pic.jp'' 1700000000 = Some True"
    by (rule scan(2)) (simp_all add: pic_uri_def strict_prefix_def)
  have "check_png_attributes (home_env\<lparr>files := snd (store_thumbnail_to_cache home_env pic_file)\<rparr>)
       pic_entry pic_uri 1700000500
      = Some (prefix pic_uri pic_uri \<and> prefix (printf_lu 1700000500) (printf_lu 1700000000))"
    by (rule scan(3))
       (simp_all add: pic_uri_def printf_lu_1700000000 printf_lu_1700000500 strict_prefix_def fresh)
  then have c: "check_png_attributes
       (home_env\<lparr>files := snd (store_thumbnail_to_cache home_env pic_file)\<rparr>)
       pic_entry pic_uri 1700000500 = Some False"
    by (simp add: printf_lu_1700000000 printf_lu_1700000500)
  have "check_png_attributes (home_env\<lparr>files := snd (store_thumbnail_to_cache home_env pic_file)\<rparr>)
       pic_entry ''file:///home/u/other.jpg'' 1700000000
      = Some (prefix ''file:///home/u/other.jpg'' pic_uri
               \<and> prefix (printf_lu 1700000000) (printf_lu 1700000000))"
    by (rule scan(3)) (simp_all add: pic_uri_def strict_prefix_def fresh)
  then have d: "check_png_attributes
       (home_env\<lparr>files := snd (store_thumbnail_to_cache home_env pic_file)\<rparr>)
       pic_entry ''file:///home/u/other.jpg'' 1700000000 = Some False"
    by (simp add: pic_uri_def)
  show ?thesis
    using s r a b c d by (simp add: pic_uri_def)
qed

section \<open>Failures and rejections of the store\<close>

text \<open>
  A write that fails makes \<open>store_thumbnail_to_cache\<close> return false and remove the
  file: with room for 20 bytes, the write of the first chunk comes back short.
\<close>

lemma write_calls_Cons_ok:
  "png_writer info d = (CAIRO_STATUS_SUCCESS, info') \<Longrightarrow>
   write_calls (d # ds) info = write_calls ds info'"
  by simp

lemma write_calls_Cons_error:
  "fst (png_writer info d) \<noteq> CAIRO_STATUS_SUCCESS \<Longrightarrow>
   write_calls (d # ds) info = png_writer info d"
  by (cases "png_writer info d"; cases "fst (png_writer info d)") auto

lemma cairo_write_error:
  "fst (write_calls (png_calls s) info) \<noteq> CAIRO_STATUS_SUCCESS \<Longrightarrow>
   fst (cairo_surface_write_to_png_stream s info) \<noteq> CAIRO_STATUS_SUCCESS"
  by (cases "write_calls (png_calls s) info"; cases "fst (write_calls (png_calls s) info)")
     (auto simp add: cairo_surface_write_to_png_stream_def)

lemma write_failure_reported:
  "store_thumbnail_to_cache (home_env\<lparr>write_room := 20\<rparr>) pic_file
     = (False, (files home_env)(pic_entry := None))"
proof -
  let ?e = "home_env\<lparr>write_room := 20\<rparr>"
  have l: "get_local_filename ?e pic_file = Some ''/home/u/pic.jpg''"
    by (simp add: get_local_filename_def home_env_def pic_file_def after_last_separator_def)
  have path: "pic_entry = thumbnail_candidate (get_thumbnail_cache_directory ?e) 0
                    (g_compute_checksum_md5 ?e (''file://'' @ ''/home/u/pic.jpg''))"
    by (simp add: get_thumbnail_cache_directory_def thumbnail_candidate_def thumbnail_levels_def
          pic_entry_def home_env_def)
  have fd: "0 < open_creat_wronly ?e pic_entry"
    by (simp add: home_env_def)
  have w1: "png_writer \<lparr>output_file_fd = \<lparr>fd_written = [], fd_room = 20\<rparr>, bytes_written = 0,
                Thumb_URI = u, Thumb_MTime = t\<rparr> expected_header
      = (CAIRO_STATUS_SUCCESS,
         \<lparr>output_file_fd = \<lparr>fd_written = expected_header, fd_room = 12\<rparr>, bytes_written = 8,
          Thumb_URI = u, Thumb_MTime = t\<rparr>)" for u t
    by (simp add: png_writer_def png_writer_rest_def write_fd_def inject_pos_def
          expected_header_def)
  have n: "length (chunk_bytes (hd pic_chunks)) = 25"
    by (simp add: pic_chunks_def chunk_bytes_def length_htonl_bytes)
  have w2: "fst (png_writer \<lparr>output_file_fd = \<lparr>fd_written = expected_header, fd_room = 12\<rparr>,
                bytes_written = 8, Thumb_URI = u, Thumb_MTime = t\<rparr> (chunk_bytes (hd pic_chunks)))
      = CAIRO_STATUS_WRITE_ERROR" for u t
    by (simp add: png_writer_def write_fd_def inject_pos_def n)
  have calls: "png_calls pic_surface
      = expected_header # chunk_bytes (hd pic_chunks) # map chunk_bytes (tl pic_chunks)"
    by (simp add: pic_surface_def pic_chunks_def)
  have "fst (write_calls (png_calls pic_surface)
          \<lparr>output_file_fd = \<lparr>fd_written = [], fd_room = 20\<rparr>, bytes_written = 0,
           Thumb_URI = u, Thumb_MTime = t\<rparr>) = CAIRO_STATUS_WRITE_ERROR" for u t
    unfolding calls write_calls_Cons_ok [OF w1]
    using w2 [of u t] by (subst write_calls_Cons_error) simp_all
  then have "fst (cairo_surface_write_to_png_stream (thumbnail pic_file)
        \<lparr>output_file_fd = \<lparr>fd_written = [], fd_room = write_room ?e\<rparr>, bytes_written = 0,
         Thumb_URI = ''file://'' @ ''/home/u/pic.jpg'', Thumb_MTime = printf_lu 1700000000\<rparr>)
      \<noteq> CAIRO_STATUS_SUCCESS"
    by (intro cairo_write_error) (simp add: pic_file_def)
  moreover have mt: "1700000000 = (case stat_mtime ?e ''/home/u/pic.jpg'' of Some t \<Rightarrow> t
                          | None \<Rightarrow> uninitialised_mtime ?e)"
    by (simp add: home_env_def)
  ultimately have "store_at_level ?e pic_file 0 = (False, (files ?e)(pic_entry := None))"
    using store_at_level_write_fails [OF l mt path fd] by simp
  then show ?thesis
    by (simp add: store_level pic_file_def pic_surface_def)
qed

text \<open>
  An open that fails does not.

  C3. In \<open>no_large_env\<close> the thumbnail file cannot be opened. \<open>store_thumbnail_to_cache\<close>
  returns true, and no file has been stored.
\<close>

theorem open_failure_reported_as_success:
  "open_creat_wronly no_large_env pic_entry = - 1
   \<and> store_thumbnail_to_cache no_large_env pic_file = (True, files no_large_env)
   \<and> files no_large_env pic_entry = None"
proof -
  have l: "get_local_filename no_large_env pic_file = Some ''/home/u/pic.jpg''"
    by (simp add: get_local_filename_def no_large_env_def home_env_def pic_file_def
          after_last_separator_def)
  have "open_creat_wronly no_large_env
          (thumbnail_candidate (get_thumbnail_cache_directory no_large_env) 0
             (g_compute_checksum_md5 no_large_env (''file://'' @ ''/home/u/pic.jpg''))) < 0"
    by (simp add: no_large_env_def home_env_def)
  then have "store_at_level no_large_env pic_file 0 = (True, files no_large_env)"
    by (rule store_at_level_open_fails [OF l])
  then show ?thesis
    by (simp add: store_level pic_file_def pic_surface_def)
       (simp add: no_large_env_def home_env_def)
qed

text \<open>
  C4, amended. A bitmap neither of whose dimensions is exactly 128 or exactly 256 is
  rejected: \<open>store_thumbnail_to_cache\<close> returns false and leaves the files as they are.
\<close>

theorem rejected_without_matching_dimension:
  assumes "surface_width (thumbnail file) \<noteq> 256" and "surface_height (thumbnail file) \<noteq> 256"
    and "surface_width (thumbnail file) \<noteq> 128" and "surface_height (thumbnail file) \<noteq> 128"
  shows "store_thumbnail_to_cache e file = (False, files e)"
  using assms by (simp add: store_level)

theorem rejected_without_matching_dimension_witness:
  "surface_width (thumbnail (pic_file\<lparr>thumbnail := pic_surface\<lparr>surface_width := 200, surface_height := 133\<rparr>\<rparr>)) \<noteq> 256
   \<and> surface_height (thumbnail (pic_file\<lparr>thumbnail := pic_surface\<lparr>surface_width := 200, surface_height := 133\<rparr>\<rparr>)) \<noteq> 256
   \<and> surface_width (thumbnail (pic_file\<lparr>thumbnail := pic_surface\<lparr>surface_width := 200, surface_height := 133\<rparr>\<rparr>)) \<noteq> 128
   \<and> surface_height (thumbnail (pic_file\<lparr>thumbnail := pic_surface\<lparr>surface_width := 200, surface_height := 133\<rparr>\<rparr>)) \<noteq> 128
   \<and> store_thumbnail_to_cache home_env
        (pic_file\<lparr>thumbnail := pic_surface\<lparr>surface_width := 200, surface_height := 133\<rparr>\<rparr>)
       = (False, files home_env)"
proof -
  let ?f = "pic_file\<lparr>thumbnail := pic_surface\<lparr>surface_width := 200, surface_height := 133\<rparr>\<rparr>"
  have a: "surface_width (thumbnail ?f) \<noteq> 256" "surface_height (thumbnail ?f) \<noteq> 256"
      "surface_width (thumbnail ?f) \<noteq> 128" "surface_height (thumbnail ?f) \<noteq> 128"
    by simp_all
  show ?thesis
    using rejected_without_matching_dimension [OF a, of home_env] a by (simp only: simp_thms)
qed

text \<open>A bitmap of 300 by 256 pixels: the long edge is 300, and the bitmap is stored.\<close>

theorem long_edge_counterexample:
  "max (surface_width (thumbnail wide_file)) (surface_height (thumbnail wide_file)) = 300
   \<and> files home_env pic_entry = None
   \<and> fst (store_thumbnail_to_cache home_env wide_file) = True
   \<and> snd (store_thumbnail_to_cache home_env wide_file) pic_entry
       = Some (spliced pic_uri ''1700000000'' (concat (png_calls wide_surface)))"
proof -
  have l: "get_local_filename home_env wide_file = Some ''/home/u/pic.jpg''"
    by (simp add: get_local_filename_def home_env_def pic_file_def wide_file_def
          after_last_separator_def)
  have mt: "1700000000 = (case stat_mtime home_env ''/home/u/pic.jpg'' of Some t \<Rightarrow> t
                          | None \<Rightarrow> uninitialised_mtime home_env)"
    by (simp add: home_env_def)
  have path: "pic_entry = thumbnail_candidate (get_thumbnail_cache_directory home_env) 0
                    (g_compute_checksum_md5 home_env (''file://'' @ ''/home/u/pic.jpg''))"
    by (simp add: pic_candidate)
  have fd: "0 < open_creat_wronly home_env pic_entry"
    by (simp add: home_env_def)
  have st: "png_status (thumbnail wide_file) = CAIRO_STATUS_SUCCESS"
    by (simp add: wide_file_def wide_surface_def)
  have n: "length (concat (png_calls (thumbnail wide_file))) = 378"
    by (simp add: wide_file_def wide_surface_def wide_chunks_def chunk_bytes_def
          length_htonl_bytes expected_header_def)
  have len: "33 \<le> length (concat (png_calls (thumbnail wide_file)))"
    by (simp add: n)
  have room: "length (spliced (''file://'' @ ''/home/u/pic.jpg'') (printf_lu 1700000000)
                 (concat (png_calls (thumbnail wide_file)))) \<le> write_room home_env"
    by (simp add: length_spliced uri_output_chunk mtime_output_chunk length_chunk_bytes_text n
          printf_lu_1700000000) (simp add: home_env_def)
  have "store_at_level home_env wide_file 0
      = (True, (files home_env)(pic_entry \<mapsto> overwritten (files home_env pic_entry)
          (spliced (''file://'' @ ''/home/u/pic.jpg'') (printf_lu 1700000000)
             (concat (png_calls (thumbnail wide_file))))))"
    by (rule store_at_level_written [OF l mt path fd st len room])
  moreover have "files home_env pic_entry = None" by (simp add: home_env_def)
  ultimately show ?thesis
    by (simp add: store_level wide_file_def overwritten_def pic_uri_def printf_lu_1700000000)
       (simp add: wide_surface_def)
qed

section \<open>Loading\<close>

lemma levels_to_try_eq:
  "levels_to_try width height = (if 128 < width \<or> 128 < height then [0, 1] else [1])"
  by (simp add: levels_to_try_def eval_nat_numeral)

lemma check_png_attributes_files:
  "files e = files e' \<Longrightarrow> check_png_attributes e = check_png_attributes e'"
  by (rule ext)+ (simp add: check_png_attributes_def)

text \<open>
  C8. In \<open>vanished_env\<close> the source has a local file name and \<open>stat\<close> on it fails.
  \<open>load_thumbnail_from_cache\<close> validates the stored entry against what
  \<open>file_stat.st_mtime\<close> holds, and returns true with the stored thumbnail.
\<close>

theorem stat_failure_hit:
  "get_local_filename vanished_env pic_file = Some ''/home/u/pic.jpg''
   \<and> stat_mtime vanished_env ''/home/u/pic.jpg'' = None
   \<and> load_thumbnail_from_cache vanished_env pic_file 256 256
       = ([pic_entry], Some (Some pic_surface))"
proof -
  have l: "get_local_filename vanished_env pic_file = Some ''/home/u/pic.jpg''"
    by (simp add: get_local_filename_def vanished_env_def home_env_def pic_file_def
          after_last_separator_def)
  have s: "stat_mtime vanished_env ''/home/u/pic.jpg'' = None"
    by (simp add: vanished_env_def)
  have u: "uninitialised_mtime vanished_env = 1700000000"
    by (simp add: vanished_env_def)
  have d: "get_thumbnail_cache_directory vanished_env = ''/home/u/.cache/thumbnails''"
    by (simp add: get_thumbnail_cache_directory_def vanished_env_def home_env_def)
  have md5: "g_compute_checksum_md5 vanished_env ''file:///home/u/pic.jpg''
      = ''a258ff570a65a6b19ad4737b46f6c3ae''"
    by (simp add: vanished_env_def home_env_def)
  have c: "thumbnail_candidate ''/home/u/.cache/thumbnails'' 0 ''a258ff570a65a6b19ad4737b46f6c3ae''
      = pic_entry"
    by (simp add: thumbnail_candidate_def thumbnail_levels_def pic_entry_def)
  have ex: "file_test_exists vanished_env pic_entry"
    by (simp add: vanished_env_def)
  have size: "surface_width (thumbnail pic_file) = 256 \<or> surface_height (thumbnail pic_file) = 256
      \<or> surface_width (thumbnail pic_file) = 128 \<or> surface_height (thumbnail pic_file) = 128"
    by (simp add: pic_file_def pic_surface_def)
  have lvl: "0 = (if surface_width (thumbnail pic_file) = 256
                     \<or> surface_height (thumbnail pic_file) = 256 then 0 else (1 :: nat))"
    by (simp add: pic_file_def pic_surface_def)
  have m: "stat_mtime home_env ''/home/u/pic.jpg'' = Some 1700000000"
    by (simp add: home_env_def)
  have uri: "pic_uri = ''file://'' @ ''/home/u/pic.jpg''" "length pic_uri < 2 ^ 30"
    by (simp_all add: pic_uri_def)
  have path: "pic_entry = thumbnail_candidate (get_thumbnail_cache_directory home_env) 0
                    (g_compute_checksum_md5 home_env pic_uri)"
    by (simp add: pic_candidate pic_uri_def)
  have fd: "0 < open_creat_wronly home_env pic_entry"
    by (simp add: home_env_def)
  have st: "png_status (thumbnail pic_file) = CAIRO_STATUS_SUCCESS"
    by (simp add: pic_file_def pic_surface_def)
  have stream': "concat (png_calls (thumbnail pic_file))
      = expected_header @ concat (map chunk_bytes
          (Chunk ''IHDR'' (chunk_payload (hd pic_chunks)) (chunk_crc (hd pic_chunks))
             # tl pic_chunks))"
    using pic_chunks_ok(1) by (simp add: pic_file_def pic_stream)
  have room: "length (concat (png_calls (thumbnail pic_file))) + length pic_uri + 100
      \<le> write_room home_env"
    by (simp add: pic_file_def length_pic_stream pic_uri_def) (simp add: home_env_def)
  have "check_png_attributes (home_env\<lparr>files := snd (store_thumbnail_to_cache home_env pic_file)\<rparr>)
     pic_entry pic_uri 1700000000 = Some True"
    by (rule stored_entry_scan(2) [OF size lvl pic_local m uri path fd st stream'
          pic_chunks_ok(2,3) room])
       (simp_all add: pic_uri_def)
  moreover have "check_png_attributes vanished_env
      = check_png_attributes (home_env\<lparr>files := snd (store_thumbnail_to_cache home_env pic_file)\<rparr>)"
    by (rule check_png_attributes_files) (simp add: vanished_env_def)
  ultimately have chk: "check_png_attributes vanished_env pic_entry
      ''file:///home/u/pic.jpg'' 1700000000 = Some True"
    by (simp add: pic_uri_def)
  have dec: "cairo_image_surface_create_from_png vanished_env pic_entry = Some pic_surface"
    by (simp add: vanished_env_def)
  have lt: "load_thumbnail vanished_env pic_entry ''file:///home/u/pic.jpg'' 1700000000 256 256
      = Some (Some pic_surface)"
    unfolding load_thumbnail_def chk dec by (simp add: pic_surface_def)
  have "load_thumbnail_from_cache vanished_env pic_file 256 256
       = ([pic_entry], Some (Some pic_surface))"
    by (simp add: load_thumbnail_from_cache_def l s u d md5 levels_to_try_eq c ex lt Let_def)
  then show ?thesis using l s by simp
qed

lemma try_levels_tried:
  "fst (try_levels e dir md5 uri mt width height js)
     = tried_until (\<lambda>c. file_test_exists e c \<and> load_thumbnail e c uri mt width height \<noteq> Some None)
         (map (\<lambda>j. thumbnail_candidate dir j md5) js)"
  by (induction js) (auto split: option.splits prod.splits)

lemma try_levels_miss:
  "(snd (try_levels e dir md5 uri mt width height js) = Some None)
     = (\<forall>c\<in>set (map (\<lambda>j. thumbnail_candidate dir j md5) js).
          \<not> (file_test_exists e c \<and> load_thumbnail e c uri mt width height \<noteq> Some None))"
  by (induction js) (auto split: option.splits prod.splits)

lemma load_thumbnail_from_cache_searches:
  assumes "width \<le> 256" and "height \<le> 256" and "get_local_filename e file = Some local"
    and "mt = (case stat_mtime e local of Some t \<Rightarrow> t | None \<Rightarrow> uninitialised_mtime e)"
    and "first = try_levels e (get_thumbnail_cache_directory e)
                   (g_compute_checksum_md5 e (''file://'' @ local)) (''file://'' @ local)
                   mt width height (levels_to_try width height)"
    and "second = try_levels e (g_build_filename e [g_path_get_dirname e local, ''.sh_thumbnails''])
                    (g_compute_checksum_md5 e (g_path_get_basename e local)) (freed_basename e)
                    mt width height (levels_to_try width height)"
  shows "load_thumbnail_from_cache e file width height
     = (if snd first = Some None
           \<and> file_test_is_dir e (g_build_filename e [g_path_get_dirname e local, ''.sh_thumbnails''])
        then (fst first @ fst second, snd second)
        else first)"
  using assms(1-3) unfolding assms(4-6)
  by (auto simp add: load_thumbnail_from_cache_def Let_def split: prod.splits option.splits)

lemma load_thumbnail_from_cache_guard:
  "256 < width \<or> 256 < height \<or> get_local_filename e file = None \<Longrightarrow>
   load_thumbnail_from_cache e file width height = ([], Some None)"
  by (auto simp add: load_thumbnail_from_cache_def)

text \<open>
  C7, amended. The tiers are Large, then Normal. For a request with both dimensions at
  most 256 and a source with a local file name, the candidates of a search are the
  Large tier's and then the Normal tier's when a requested dimension exceeds 128, and
  the Normal tier's alone otherwise. The primary search tries its candidates in that
  order and ends with the first one that loads: that exists and for which
  \<open>load_thumbnail\<close> does not return NULL. The shared-directory search does the same
  with its candidates; it runs only when no candidate of the primary search loaded
  and the shared directory exists. The request is a miss exactly when no candidate
  loaded. A request with a dimension above 256, or for a source without a local file
  name, tries no candidate and is a miss.
\<close>

theorem tier_search_order:
  assumes "tiers = (if 128 < width \<or> 128 < height then [0, 1] else [1])"
    and "uri = ''file://'' @ local"
    and "primary = map (\<lambda>j. thumbnail_candidate (get_thumbnail_cache_directory e) j
                               (g_compute_checksum_md5 e uri)) tiers"
    and "shared_dir = g_build_filename e [g_path_get_dirname e local, ''.sh_thumbnails'']"
    and "shared = map (\<lambda>j. thumbnail_candidate shared_dir j
                              (g_compute_checksum_md5 e (g_path_get_basename e local))) tiers"
    and "mt = (case stat_mtime e local of Some t \<Rightarrow> t | None \<Rightarrow> uninitialised_mtime e)"
    and "loads_primary
           = (\<lambda>c. file_test_exists e c \<and> load_thumbnail e c uri mt width height \<noteq> Some None)"
    and "loads_shared
           = (\<lambda>c. file_test_exists e c
                 \<and> load_thumbnail e c (freed_basename e) mt width height \<noteq> Some None)"
  shows "thumbnail_levels = [''large'', ''normal'']
     \<and> (256 < width \<or> 256 < height \<or> get_local_filename e file = None
          \<longrightarrow> load_thumbnail_from_cache e file width height = ([], Some None))
     \<and> (width \<le> 256 \<and> height \<le> 256 \<and> get_local_filename e file = Some local
          \<longrightarrow> fst (load_thumbnail_from_cache e file width height)
                = tried_until loads_primary primary
                  @ (if (\<forall>c\<in>set primary. \<not> loads_primary c) \<and> file_test_is_dir e shared_dir
                     then tried_until loads_shared shared else [])
              \<and> (snd (load_thumbnail_from_cache e file width height) = Some None)
                  = ((\<forall>c\<in>set primary. \<not> loads_primary c)
                     \<and> (file_test_is_dir e shared_dir \<longrightarrow> (\<forall>c\<in>set shared. \<not> loads_shared c))))"
proof (intro conjI impI)
  show "thumbnail_levels = [''large'', ''normal'']"
    by (simp add: thumbnail_levels_def)
next
  assume "256 < width \<or> 256 < height \<or> get_local_filename e file = None"
  then show "load_thumbnail_from_cache e file width height = ([], Some None)"
    by (rule load_thumbnail_from_cache_guard)
next
  assume req: "width \<le> 256 \<and> height \<le> 256 \<and> get_local_filename e file = Some local"
  define first where "first = try_levels e (get_thumbnail_cache_directory e)
                   (g_compute_checksum_md5 e (''file://'' @ local)) (''file://'' @ local)
                   mt width height (levels_to_try width height)"
  define second where "second = try_levels e
                    (g_build_filename e [g_path_get_dirname e local, ''.sh_thumbnails''])
                    (g_compute_checksum_md5 e (g_path_get_basename e local)) (freed_basename e)
                    mt width height (levels_to_try width height)"
  have tiers: "levels_to_try width height = tiers"
    unfolding assms(1) by (rule levels_to_try_eq)
  have f1: "fst first = tried_until loads_primary primary"
    unfolding first_def assms(3) assms(7) assms(2) tiers by (rule try_levels_tried)
  have f2: "fst second = tried_until loads_shared shared"
    unfolding second_def assms(5) assms(8) assms(4) tiers by (rule try_levels_tried)
  have m1: "(snd first = Some None) = (\<forall>c\<in>set primary. \<not> loads_primary c)"
    unfolding first_def assms(3) assms(7) assms(2) tiers by (rule try_levels_miss)
  have m2: "(snd second = Some None) = (\<forall>c\<in>set shared. \<not> loads_shared c)"
    unfolding second_def assms(5) assms(8) assms(4) tiers by (rule try_levels_miss)
  have r: "load_thumbnail_from_cache e file width height
      = (if snd first = Some None \<and> file_test_is_dir e shared_dir
         then (fst first @ fst second, snd second) else first)"
    using req load_thumbnail_from_cache_searches [OF _ _ _ assms(6) first_def second_def]
    by (simp add: assms(4))
  show "fst (load_thumbnail_from_cache e file width height)
      = tried_until loads_primary primary
        @ (if (\<forall>c\<in>set primary. \<not> loads_primary c) \<and> file_test_is_dir e shared_dir
           then tried_until loads_shared shared else [])"
    unfolding r m1 [symmetric] f1 [symmetric] f2 [symmetric] by simp
  show "(snd (load_thumbnail_from_cache e file width height) = Some None)
      = ((\<forall>c\<in>set primary. \<not> loads_primary c)
         \<and> (file_test_is_dir e shared_dir \<longrightarrow> (\<forall>c\<in>set shared. \<not> loads_shared c)))"
    unfolding r m1 [symmetric] m2 [symmetric] by auto
qed

lemma cached_entry_valid:
  "check_png_attributes cached_env pic_entry ''file:///home/u/pic.jpg'' 1700000000 = Some True"
proof -
  have size: "surface_width (thumbnail pic_file) = 256 \<or> surface_height (thumbnail pic_file) = 256
      \<or> surface_width (thumbnail pic_file) = 128 \<or> surface_height (thumbnail pic_file) = 128"
    by (simp add: pic_file_def pic_surface_def)
  have lvl: "0 = (if surface_width (thumbnail pic_file) = 256
                     \<or> surface_height (thumbnail pic_file) = 256 then 0 else (1 :: nat))"
    by (simp add: pic_file_def pic_surface_def)
  have m: "stat_mtime home_env ''/home/u/pic.jpg'' = Some 1700000000"
    by (simp add: home_env_def)
  have uri: "pic_uri = ''file://'' @ ''/home/u/pic.jpg''" "length pic_uri < 2 ^ 30"
    by (simp_all add: pic_uri_def)
  have path: "pic_entry = thumbnail_candidate (get_thumbnail_cache_directory home_env) 0
                    (g_compute_checksum_md5 home_env pic_uri)"
    by (simp add: pic_candidate pic_uri_def)
  have fd: "0 < open_creat_wronly home_env pic_entry"
    by (simp add: home_env_def)
  have st: "png_status (thumbnail pic_file) = CAIRO_STATUS_SUCCESS"
    by (simp add: pic_file_def pic_surface_def)
  have stream': "concat (png_calls (thumbnail pic_file))
      = expected_header @ concat (map chunk_bytes
          (Chunk ''IHDR'' (chunk_payload (hd pic_chunks)) (chunk_crc (hd pic_chunks))
             # tl pic_chunks))"
    using pic_chunks_ok(1) by (simp add: pic_file_def pic_stream)
  have room: "length (concat (png_calls (thumbnail pic_file))) + length pic_uri + 100
      \<le> write_room home_env"
    by (simp add: pic_file_def length_pic_stream pic_uri_def) (simp add: home_env_def)
  have "check_png_attributes (home_env\<lparr>files := snd (store_thumbnail_to_cache home_env pic_file)\<rparr>)
     pic_entry pic_uri 1700000000 = Some True"
    by (rule stored_entry_scan(2) [OF size lvl pic_local m uri path fd st stream'
          pic_chunks_ok(2,3) room])
       (simp_all add: pic_uri_def)
  moreover have "check_png_attributes cached_env
      = check_png_attributes (home_env\<lparr>files := snd (store_thumbnail_to_cache home_env pic_file)\<rparr>)"
    by (rule check_png_attributes_files) (simp add: cached_env_def)
  ultimately show ?thesis
    by (simp add: pic_uri_def)
qed

text \<open>
  Instances. With the stored entry in the Large tier, a request of 256 by 256 pixels
  tries that entry, which loads, and nothing else. With a shared directory and no
  entry anywhere, a request of 200 by 200 pixels tries Large and Normal of the primary
  search and then Large and Normal of the shared one, and a request of 64 by 64 pixels
  the two Normal candidates. A request of 300 by 300 pixels and a request for an image
  loaded from memory try nothing.
\<close>

theorem tier_search_order_witness:
  "(256 :: nat) \<le> 256 \<and> (200 :: nat) \<le> 256 \<and> (64 :: nat) \<le> 256 \<and> (256 :: nat) < 300
   \<and> get_local_filename cached_env pic_file = Some ''/home/u/pic.jpg''
   \<and> get_local_filename shared_env pic_file = Some ''/home/u/pic.jpg''
   \<and> get_local_filename cached_env memory_file = None
   \<and> fst (load_thumbnail_from_cache cached_env pic_file 256 256) = [pic_entry]
   \<and> snd (load_thumbnail_from_cache cached_env pic_file 256 256) \<noteq> Some None
   \<and> fst (load_thumbnail_from_cache shared_env pic_file 200 200)
       = [''/home/u/.cache/thumbnails/large/a258ff570a65a6b19ad4737b46f6c3ae.png'',
          ''/home/u/.cache/thumbnails/normal/a258ff570a65a6b19ad4737b46f6c3ae.png'',
          ''/home/u/.sh_thumbnails/large/718c64db364a36b690a522b5076ec9d9.png'',
          ''/home/u/.sh_thumbnails/normal/718c64db364a36b690a522b5076ec9d9.png'']
   \<and> snd (load_thumbnail_from_cache shared_env pic_file 200 200) = Some None
   \<and> fst (load_thumbnail_from_cache shared_env pic_file 64 64)
       = [''/home/u/.cache/thumbnails/normal/a258ff570a65a6b19ad4737b46f6c3ae.png'',
          ''/home/u/.sh_thumbnails/normal/718c64db364a36b690a522b5076ec9d9.png'']
   \<and> snd (load_thumbnail_from_cache shared_env pic_file 64 64) = Some None
   \<and> load_thumbnail_from_cache cached_env pic_file 300 300 = ([], Some None)
   \<and> load_thumbnail_from_cache cached_env memory_file 64 64 = ([], Some None)"
proof -
  have lc: "get_local_filename cached_env pic_file = Some ''/home/u/pic.jpg''"
    by (simp add: get_local_filename_def cached_env_def home_env_def pic_file_def
          after_last_separator_def)
  have ls: "get_local_filename shared_env pic_file = Some ''/home/u/pic.jpg''"
    by (simp add: get_local_filename_def shared_env_def home_env_def pic_file_def
          after_last_separator_def)
  have lm: "get_local_filename cached_env memory_file = None"
    by (simp add: get_local_filename_def cached_env_def home_env_def memory_file_def)
  have dc: "get_thumbnail_cache_directory cached_env = ''/home/u/.cache/thumbnails''"
    by (simp add: get_thumbnail_cache_directory_def cached_env_def home_env_def)
  have ds: "get_thumbnail_cache_directory shared_env = ''/home/u/.cache/thumbnails''"
    by (simp add: get_thumbnail_cache_directory_def shared_env_def home_env_def)
  have md5c: "g_compute_checksum_md5 cached_env ''file:///home/u/pic.jpg''
      = ''a258ff570a65a6b19ad4737b46f6c3ae''"
    by (simp add: cached_env_def home_env_def)
  have md5s: "g_compute_checksum_md5 shared_env ''file:///home/u/pic.jpg''
      = ''a258ff570a65a6b19ad4737b46f6c3ae''"
    by (simp add: shared_env_def home_env_def)
  have base: "g_compute_checksum_md5 shared_env (g_path_get_basename shared_env ''/home/u/pic.jpg'')
      = ''718c64db364a36b690a522b5076ec9d9''"
    by (simp add: shared_env_def home_env_def after_last_separator_def)
  have sd: "g_build_filename shared_env [g_path_get_dirname shared_env ''/home/u/pic.jpg'',
                                        ''.sh_thumbnails''] = ''/home/u/.sh_thumbnails''"
    by (simp add: shared_env_def home_env_def after_last_separator_def)
  have isd: "file_test_is_dir shared_env ''/home/u/.sh_thumbnails''"
    by (simp add: shared_env_def)
  have ne: "\<not> file_test_exists shared_env c" for c
    by (simp add: shared_env_def home_env_def)
  have c0: "thumbnail_candidate ''/home/u/.cache/thumbnails'' 0 ''a258ff570a65a6b19ad4737b46f6c3ae''
      = pic_entry"
    by (simp add: thumbnail_candidate_def thumbnail_levels_def pic_entry_def)
  have ex: "file_test_exists cached_env pic_entry"
    by (simp add: cached_env_def)
  have mt: "stat_mtime cached_env ''/home/u/pic.jpg'' = Some 1700000000"
    by (simp add: cached_env_def home_env_def)
  have dec: "cairo_image_surface_create_from_png cached_env pic_entry = Some pic_surface"
    by (simp add: cached_env_def)
  have lt: "load_thumbnail cached_env pic_entry ''file:///home/u/pic.jpg'' 1700000000 256 256
      = Some (Some pic_surface)"
    unfolding load_thumbnail_def cached_entry_valid dec by (simp add: pic_surface_def)
  note hit = tier_search_order [of _ 256 256 _ "''/home/u/pic.jpg''" _ cached_env _ _ _ _ _ pic_file,
      OF refl refl refl refl refl refl refl refl, THEN conjunct2, THEN conjunct2, rule_format]
  note big = tier_search_order [of _ 200 200 _ "''/home/u/pic.jpg''" _ shared_env _ _ _ _ _ pic_file,
      OF refl refl refl refl refl refl refl refl, THEN conjunct2, THEN conjunct2, rule_format]
  note small = tier_search_order [of _ 64 64 _ "''/home/u/pic.jpg''" _ shared_env _ _ _ _ _ pic_file,
      OF refl refl refl refl refl refl refl refl, THEN conjunct2, THEN conjunct2, rule_format]
  note over = tier_search_order [of _ 300 300 _ "''/home/u/pic.jpg''" _ cached_env _ _ _ _ _ pic_file,
      OF refl refl refl refl refl refl refl refl, THEN conjunct2, THEN conjunct1, rule_format]
  note mem = tier_search_order [of _ 64 64 _ "''/home/u/pic.jpg''" _ cached_env _ _ _ _ _ memory_file,
      OF refl refl refl refl refl refl refl refl, THEN conjunct2, THEN conjunct1, rule_format]
  have h1: "fst (load_thumbnail_from_cache cached_env pic_file 256 256) = [pic_entry]"
    using hit [THEN conjunct1] lc by (simp add: dc md5c c0 ex mt lt)
  have h2: "snd (load_thumbnail_from_cache cached_env pic_file 256 256) \<noteq> Some None"
    using hit [THEN conjunct2] lc by (simp add: dc md5c c0 ex mt lt)
  have b1: "fst (load_thumbnail_from_cache shared_env pic_file 200 200)
       = [''/home/u/.cache/thumbnails/large/a258ff570a65a6b19ad4737b46f6c3ae.png'',
          ''/home/u/.cache/thumbnails/normal/a258ff570a65a6b19ad4737b46f6c3ae.png'',
          ''/home/u/.sh_thumbnails/large/718c64db364a36b690a522b5076ec9d9.png'',
          ''/home/u/.sh_thumbnails/normal/718c64db364a36b690a522b5076ec9d9.png'']"
    using big [THEN conjunct1] ls
    by (simp add: ds md5s base sd isd ne thumbnail_candidate_def thumbnail_levels_def)
  have b2: "snd (load_thumbnail_from_cache shared_env pic_file 200 200) = Some None"
    using big [THEN conjunct2] ls by (simp add: ne)
  have s1: "fst (load_thumbnail_from_cache shared_env pic_file 64 64)
       = [''/home/u/.cache/thumbnails/normal/a258ff570a65a6b19ad4737b46f6c3ae.png'',
          ''/home/u/.sh_thumbnails/normal/718c64db364a36b690a522b5076ec9d9.png'']"
    using small [THEN conjunct1] ls
    by (simp add: ds md5s base sd isd ne thumbnail_candidate_def thumbnail_levels_def)
  have s2: "snd (load_thumbnail_from_cache shared_env pic_file 64 64) = Some None"
    using small [THEN conjunct2] ls by (simp add: ne)
  have o: "load_thumbnail_from_cache cached_env pic_file 300 300 = ([], Some None)"
    using over by simp
  have m: "load_thumbnail_from_cache cached_env memory_file 64 64 = ([], Some None)"
    using mem lm by simp
  show ?thesis
    using lc ls lm h1 h2 b1 b2 s1 s2 o m by (simp only: simp_thms) simp
qed

text \<open>
  C7, as the specification has it, fails on a request of 300 by 300 pixels: a dimension
  exceeds 128 and there is an entry in the Large tier, but no candidate is tried.
\<close>

theorem oversized_request_counterexample:
  "(128 :: nat) < 300
   \<and> file_test_exists vanished_env pic_entry
   \<and> load_thumbnail_from_cache vanished_env pic_file 300 300 = ([], Some None)"
  by (simp add: load_thumbnail_from_cache_def vanished_env_def)

end
